theory Spec2Isabelle
  imports Main
begin

section \<open>Data model of the runtime compiler\<close>

text \<open>
  The embedding follows \<^verbatim>\<open>runtime_compiler.ts\<close>. Objects created with \<^verbatim>\<open>new\<close> live in
  explicit stores addressed by references, so that reference identity of the source is
  equality of references here. A single counter \<open>nextId\<close> hands out fresh references.
  Promises are entries of a promise store; every \<^verbatim>\<open>.then\<close> callback of the source is a
  \<open>task\<close> that carries the variables its closure captured and that an event-loop step
  runs once the promises it waits for are settled.
\<close>

type_synonym Type = nat
  \<comment> \<open>a component class, used as an opaque key compared by reference\<close>

type_synonym ref = nat

type_synonym statements = string
  \<comment> \<open>output AST of a collaborator; only handed through\<close>

type_synonym CompilePipeMetadata = string

datatype cache_key = ObjectKey ref | TypeKey Type
  \<comment> \<open>keys of \<^verbatim>\<open>_compiledTemplateCache\<close>: a \<^verbatim>\<open>new Object()\<close> for a host template,
      \<^verbatim>\<open>dep.comp.type.runtime\<close> for a nested component\<close>

datatype error =
    CannotResolve string
      \<comment> \<open>\<^verbatim>\<open>Cannot resolve component using '...'.\<close>\<close>
  | NotAComponent string
      \<comment> \<open>\<^verbatim>\<open>Could not compile '...' because it is not a component.\<close>\<close>
  | TypeError
      \<comment> \<open>reading a property of \<^verbatim>\<open>undefined\<close>\<close>
  | External string
      \<comment> \<open>a rejection produced by a collaborator\<close>

record CompileDirectiveMetadata =
  type_runtime :: Type
  type_name :: string
  isComponent :: bool
  selector :: string
  template_text :: string

record CompileIdentifierMetadata =
  ident_runtime :: Type
  ident_name :: string

record StylesCompileDependency =
  moduleUrl :: string
  isShimmed :: bool

record StylesCompileResult =
  css_statements :: statements
  stylesVar :: string
  css_dependencies :: "StylesCompileDependency list"

datatype ViewDependency =
    ViewFactoryDependency CompileDirectiveMetadata
  | ComponentFactoryDependency CompileIdentifierMetadata

record ViewCompileResult =
  statements :: statements
  viewFactoryVar :: string
  dependencies :: "ViewDependency list"

datatype backend = Interpret | Jit string
  \<comment> \<open>\<^verbatim>\<open>interpretStatements\<close>, or \<^verbatim>\<open>jitStatements\<close> with its source url\<close>

datatype proxy = Proxy ref
  \<comment> \<open>the arrow function built in the constructor of \<^verbatim>\<open>CompiledTemplate\<close>; it closes over
      \<^verbatim>\<open>this\<close>\<close>

datatype placeholder =
    ViewFactoryPlaceholder proxy string
  | CompFactoryPlaceholder ref string
  \<comment> \<open>\<^verbatim>\<open>dep.placeholder\<close> after \<^verbatim>\<open>runtime\<close> and \<^verbatim>\<open>name\<close> have been assigned\<close>

datatype Function = ViewFactoryFn backend statements string "placeholder list"
  \<comment> \<open>the realised view factory: backend, statements, entry variable, patched placeholders\<close>

datatype val =
    Undefined
  | VString string
  | VMeta CompileDirectiveMetadata
  | VStyles backend statements string "val list"
      \<comment> \<open>realised style program; the list holds \<^verbatim>\<open>importedStyles0\<close>, \<^verbatim>\<open>importedStyles1\<close>, ...\<close>
  | VTemplate ref
  | VFactory ref

datatype promise_state = Pending | Fulfilled val | Rejected error

record CompiledTemplate =
  viewFactory :: "Function option"
  proxyViewFactory :: proxy
  done_promise :: ref

record ComponentFactory =
  cf_selector :: string
  cf_viewFactory :: proxy
  cf_componentType :: Type

record CompileHostTemplate =
  componentFactory :: ref
  host_done :: ref

text \<open>Calls to collaborators and cache insertions, in the order the code performs them.\<close>

datatype event =
    CallGetDirectiveMetadata Type
  | CallGetViewDirectivesMetadata Type
  | CallGetViewPipesMetadata Type
  | CallStyleCompileComponent CompileDirectiveMetadata
  | CallStyleCompileStylesheet string val bool
  | CallNormalizeDirective CompileDirectiveMetadata
  | CallParse CompileDirectiveMetadata
  | CallViewCompileComponent CompileDirectiveMetadata
  | CallXhrGet string
  | TemplateCacheSet cache_key ref

text \<open>
  The callbacks of the source, defunctionalised. The first reference of a task is the
  promise the callback settles.
\<close>

datatype task =
    XhrTask ref string
      \<comment> \<open>the transport answers \<^verbatim>\<open>_xhr.get(url)\<close>\<close>
  | NormalizeTask ref CompileDirectiveMetadata
      \<comment> \<open>the normalizer answers \<^verbatim>\<open>normalizeDirective(dirMeta)\<close>\<close>
  | StylesFetchedTask ref string StylesCompileResult "ref list"
      \<comment> \<open>first \<^verbatim>\<open>then\<close> of \<^verbatim>\<open>_resolveStylesCompileResult\<close>, waiting for the css texts\<close>
  | StylesNestedTask ref string StylesCompileResult "ref list"
      \<comment> \<open>second \<^verbatim>\<open>then\<close>, waiting for the nested results\<close>
  | CompileTask ref ref CompileDirectiveMetadata "CompilePipeMetadata list"
      "cache_key list" "ref list"
      \<comment> \<open>the \<^verbatim>\<open>then\<close> of \<^verbatim>\<open>_loadAndCompileComponent\<close>: done, compiledTemplate, compMeta,
          pipes, compilingComponentsPath, styles promise followed by normalizer promises\<close>
  | ChildrenTask ref ref "ref list"
      \<comment> \<open>\<^verbatim>\<open>PromiseWrapper.all(childPromises).then((_) => compiledTemplate)\<close>\<close>
  | HostTask ref ref ref
      \<comment> \<open>\<^verbatim>\<open>_template.done.then((_) => this.componentFactory)\<close>\<close>

record state =
  styleCache :: "string \<rightharpoonup> ref"
  hostCacheKeys :: "Type \<rightharpoonup> cache_key"
  compiledTemplateCache :: "cache_key \<rightharpoonup> ref"
  templates :: "ref \<rightharpoonup> CompiledTemplate"
  factories :: "ref \<rightharpoonup> ComponentFactory"
  promises :: "ref \<rightharpoonup> promise_state"
  tasks :: "task list"
  nextId :: ref
  trace :: "event list"

text \<open>
  The collaborators injected into the constructor, and the functions imported from
  other modules, as the parameters of the model.
\<close>

record env =
  getDirectiveMetadata :: "Type \<Rightarrow> CompileDirectiveMetadata"
  getViewDirectivesMetadata :: "Type \<Rightarrow> CompileDirectiveMetadata list"
  getViewPipesMetadata :: "Type \<Rightarrow> CompilePipeMetadata list"
  createHostComponentMeta :: "Type \<Rightarrow> string \<Rightarrow> string \<Rightarrow> CompileDirectiveMetadata"
    \<comment> \<open>applied to \<^verbatim>\<open>compMeta.type\<close> (runtime and name) and \<^verbatim>\<open>compMeta.selector\<close>\<close>
  styleCompileComponent :: "CompileDirectiveMetadata \<Rightarrow> StylesCompileResult"
  styleCompileStylesheet :: "string \<Rightarrow> val \<Rightarrow> bool \<Rightarrow> StylesCompileResult"
  normalizeDirective :: "CompileDirectiveMetadata \<Rightarrow> error + CompileDirectiveMetadata"
    \<comment> \<open>how the promise returned by the normalizer settles\<close>
  parse :: "CompileDirectiveMetadata \<Rightarrow> string \<Rightarrow> val list \<Rightarrow> CompilePipeMetadata list
            \<Rightarrow> string \<Rightarrow> error + string"
  viewCompileComponent :: "CompileDirectiveMetadata \<Rightarrow> string \<Rightarrow> val
            \<Rightarrow> CompilePipeMetadata list \<Rightarrow> ViewCompileResult"
  xhrGet :: "string \<Rightarrow> error + string"
    \<comment> \<open>how the promise returned by the transport settles\<close>
  useJit :: bool
  IS_DART :: bool

definition initial :: state where
  "initial = \<lparr> styleCache = Map.empty, hostCacheKeys = Map.empty,
     compiledTemplateCache = Map.empty, templates = Map.empty, factories = Map.empty,
     promises = Map.empty, tasks = [], nextId = 0, trace = [] \<rparr>"

section \<open>Promises\<close>

definition newPromise :: "promise_state \<Rightarrow> state \<Rightarrow> ref \<times> state" where
  "newPromise st s =
     (nextId s, s\<lparr> promises := (promises s)(nextId s \<mapsto> st), nextId := Suc (nextId s) \<rparr>)"

definition settle :: "ref \<Rightarrow> promise_state \<Rightarrow> state \<Rightarrow> state" where
  "settle p st s = s\<lparr> promises := (promises s)(p \<mapsto> st) \<rparr>"

definition addTask :: "task \<Rightarrow> state \<Rightarrow> state" where
  "addTask t s = s\<lparr> tasks := tasks s @ [t] \<rparr>"

definition record_call :: "event \<Rightarrow> state \<Rightarrow> state" where
  "record_call e s = s\<lparr> trace := trace s @ [e] \<rparr>"

text \<open>
  \<^verbatim>\<open>PromiseWrapper.all\<close>: \<open>None\<close> while it is pending, an error as soon as one input is
  rejected, the list of values once every input is fulfilled. When several inputs are
  rejected by the time the reaction runs, the error of the first one in the list is taken.
\<close>

fun all_settled :: "(ref \<rightharpoonup> promise_state) \<Rightarrow> ref list \<Rightarrow> (error + val list) option" where
  "all_settled ps [] = Some (Inr [])"
| "all_settled ps (p # rest) =
     (case ps p of
        Some (Rejected e) \<Rightarrow> Some (Inl e)
      | Some (Fulfilled v) \<Rightarrow>
          (case all_settled ps rest of
             None \<Rightarrow> None
           | Some (Inl e) \<Rightarrow> Some (Inl e)
           | Some (Inr vs) \<Rightarrow> Some (Inr (v # vs)))
      | _ \<Rightarrow>
          (case all_settled ps rest of
             Some (Inl e) \<Rightarrow> Some (Inl e)
           | _ \<Rightarrow> None))"

section \<open>The synchronous methods of RuntimeCompiler\<close>

definition clearCache :: "state \<Rightarrow> state" where
  "clearCache s = s\<lparr> styleCache := Map.empty, compiledTemplateCache := Map.empty,
     hostCacheKeys := Map.empty \<rparr>"

definition loadStylesheetDep :: "env \<Rightarrow> StylesCompileDependency \<Rightarrow> state \<Rightarrow> ref \<times> state" where
  "loadStylesheetDep e dep s =
     (let cacheKey = moduleUrl dep @ (if isShimmed dep then ''.shim'' else '''') in
      case styleCache s cacheKey of
        Some cssTextPromise \<Rightarrow> (cssTextPromise, s)
      | None \<Rightarrow>
          (let (cssTextPromise, s1) = newPromise Pending (record_call (CallXhrGet (moduleUrl dep)) s);
               s2 = addTask (XhrTask cssTextPromise (moduleUrl dep)) s1
           in (cssTextPromise, s2\<lparr> styleCache := (styleCache s2)(cacheKey \<mapsto> cssTextPromise) \<rparr>)))"

fun loadStylesheetDeps :: "env \<Rightarrow> StylesCompileDependency list \<Rightarrow> state \<Rightarrow> ref list \<times> state" where
  "loadStylesheetDeps e [] s = ([], s)"
| "loadStylesheetDeps e (dep # deps) s =
     (let (p, s1) = loadStylesheetDep e dep s;
          (ps, s2) = loadStylesheetDeps e deps s1
      in (p # ps, s2))"

definition resolveStylesCompileResult ::
    "env \<Rightarrow> string \<Rightarrow> StylesCompileResult \<Rightarrow> state \<Rightarrow> ref \<times> state" where
  "resolveStylesCompileResult e sourceUrl result s =
     (let (ps, s1) = loadStylesheetDeps e (css_dependencies result) s;
          (out, s2) = newPromise Pending s1
      in (out, addTask (StylesFetchedTask out sourceUrl result ps) s2))"

definition compileComponentStyles :: "env \<Rightarrow> CompileDirectiveMetadata \<Rightarrow> state \<Rightarrow> ref \<times> state" where
  "compileComponentStyles e compMeta s =
     (let compileResult = styleCompileComponent e compMeta;
          s1 = record_call (CallStyleCompileComponent compMeta) s
      in resolveStylesCompileResult e (type_name compMeta) compileResult s1)"

fun normalizeDirectives :: "env \<Rightarrow> CompileDirectiveMetadata list \<Rightarrow> state \<Rightarrow> ref list \<times> state" where
  "normalizeDirectives e [] s = ([], s)"
| "normalizeDirectives e (dirMeta # rest) s =
     (let (p, s1) = newPromise Pending (record_call (CallNormalizeDirective dirMeta) s);
          s2 = addTask (NormalizeTask p dirMeta) s1;
          (ps, s3) = normalizeDirectives e rest s2
      in (p # ps, s3))"

definition newCompiledTemplate :: "ref \<Rightarrow> state \<Rightarrow> ref \<times> state" where
  "newCompiledTemplate d s =
     (nextId s,
      s\<lparr> templates := (templates s)(nextId s \<mapsto>
            \<lparr> viewFactory = None, proxyViewFactory = Proxy (nextId s), done_promise = d \<rparr>),
         nextId := Suc (nextId s) \<rparr>)"

definition init :: "ref \<Rightarrow> Function \<Rightarrow> state \<Rightarrow> state" where
  "init ct f s =
     s\<lparr> templates := (templates s)(ct :=
          map_option (\<lambda>t. t\<lparr> viewFactory := Some f \<rparr>) (templates s ct)) \<rparr>"

text \<open>
  \<^verbatim>\<open>_loadAndCompileComponent\<close>. The statements of the source run in their order: the
  arguments of \<^verbatim>\<open>PromiseWrapper.all\<close> (style compilation, then one normalizer call per
  view directive), the promise \<open>d\<close> that \<^verbatim>\<open>then\<close> returns, the constructor, the cache
  insertion. The callback closes over the variable \<^verbatim>\<open>compiledTemplate\<close>, which the source
  assigns after \<^verbatim>\<open>then\<close> has returned; its task therefore carries the reference of the
  new template. No callback can run in between.
\<close>

definition loadAndCompileComponent ::
    "env \<Rightarrow> cache_key \<Rightarrow> CompileDirectiveMetadata \<Rightarrow> CompileDirectiveMetadata list
       \<Rightarrow> CompilePipeMetadata list \<Rightarrow> cache_key list \<Rightarrow> state \<Rightarrow> ref \<times> state" where
  "loadAndCompileComponent e cacheKey compMeta viewDirectives pipes compilingComponentsPath s =
     (case compiledTemplateCache s cacheKey of
        Some compiledTemplate \<Rightarrow> (compiledTemplate, s)
      | None \<Rightarrow>
          (let (stylesP, s1) = compileComponentStyles e compMeta s;
               (normPs, s2) = normalizeDirectives e viewDirectives s1;
               (d, s3) = newPromise Pending s2;
               (compiledTemplate, s4) = newCompiledTemplate d s3;
               s5 = addTask (CompileTask d compiledTemplate compMeta pipes
                       compilingComponentsPath (stylesP # normPs)) s4;
               s6 = record_call (TemplateCacheSet cacheKey compiledTemplate)
                      (s5\<lparr> compiledTemplateCache :=
                             (compiledTemplateCache s5)(cacheKey \<mapsto> compiledTemplate) \<rparr>)
           in (compiledTemplate, s6)))"

definition assertComponent :: "CompileDirectiveMetadata \<Rightarrow> error + unit" where
  "assertComponent meta =
     (if \<not> isComponent meta then Inl (NotAComponent (type_name meta)) else Inr ())"

text \<open>
  The constructor of \<^verbatim>\<open>CompileHostTemplate\<close>. Reading \<^verbatim>\<open>_template.proxyViewFactory\<close> of an
  undefined template throws a type error. (A reference without an object behind it does
  not occur; that branch only makes the function total.)
\<close>

definition newCompileHostTemplate ::
    "ref option \<Rightarrow> CompileDirectiveMetadata \<Rightarrow> state \<Rightarrow> (error + CompileHostTemplate) \<times> state" where
  "newCompileHostTemplate template compMeta s =
     (case template of
        None \<Rightarrow> (Inl TypeError, s)
      | Some ct \<Rightarrow>
          (case templates s ct of
             None \<Rightarrow> (Inl TypeError, s)
           | Some t \<Rightarrow>
               (let cf = nextId s;
                    s1 = s\<lparr> factories := (factories s)(cf \<mapsto>
                              \<lparr> cf_selector = selector compMeta,
                                cf_viewFactory = proxyViewFactory t,
                                cf_componentType = type_runtime compMeta \<rparr>),
                            nextId := Suc (nextId s) \<rparr>;
                    (d, s2) = newPromise Pending s1
                in (Inr \<lparr> componentFactory = cf, host_done = d \<rparr>,
                    addTask (HostTask d (done_promise t) cf) s2))))"

definition loadAndCompileHostComponent ::
    "env \<Rightarrow> Type \<Rightarrow> state \<Rightarrow> (error + CompileHostTemplate) \<times> state" where
  "loadAndCompileHostComponent e componentType s =
     (let compMeta = getDirectiveMetadata e componentType;
          s1 = record_call (CallGetDirectiveMetadata componentType) s
      in case hostCacheKeys s1 (type_runtime compMeta) of
           Some hostCacheKey \<Rightarrow>
             newCompileHostTemplate (compiledTemplateCache s1 hostCacheKey) compMeta s1
         | None \<Rightarrow>
             (let hostCacheKey = ObjectKey (nextId s1);
                  s2 = s1\<lparr> hostCacheKeys := (hostCacheKeys s1)(type_runtime compMeta \<mapsto> hostCacheKey),
                          nextId := Suc (nextId s1) \<rparr>
              in case assertComponent compMeta of
                   Inl err \<Rightarrow> (Inl err, s2)
                 | Inr _ \<Rightarrow>
                     (let hostMeta = createHostComponentMeta e (type_runtime compMeta)
                                       (type_name compMeta) (selector compMeta);
                          (_, s3) = loadAndCompileComponent e hostCacheKey hostMeta [compMeta] [] [] s2
                      in newCompileHostTemplate (compiledTemplateCache s3 hostCacheKey) compMeta s3)))"

definition resolveComponent :: "env \<Rightarrow> Type + string \<Rightarrow> state \<Rightarrow> (error + ref) \<times> state" where
  "resolveComponent e component s =
     (case component of
        Inr str \<Rightarrow>
          (let (p, s1) = newPromise (Rejected (CannotResolve str)) s in (Inr p, s1))
      | Inl componentType \<Rightarrow>
          (case loadAndCompileHostComponent e componentType s of
             (Inl err, s1) \<Rightarrow> (Inl err, s1)
           | (Inr host, s1) \<Rightarrow> (Inr (host_done host), s1)))"

section \<open>The callbacks\<close>

definition nth_val :: "val list \<Rightarrow> nat \<Rightarrow> val" where
  "nth_val vs i = (if i < length vs then vs ! i else Undefined)"
  \<comment> \<open>array indexing of the source: \<^verbatim>\<open>undefined\<close> out of range\<close>

definition realize :: "env \<Rightarrow> string \<Rightarrow> backend" where
  "realize e sourceUrl = (if IS_DART e \<or> \<not> useJit e then Interpret else Jit sourceUrl)"

text \<open>One iteration of \<^verbatim>\<open>compileResult.dependencies.forEach\<close> in \<^verbatim>\<open>_compileComponent\<close>:
  the promises it pushes on \<^verbatim>\<open>childPromises\<close> and the patched placeholder. An exception
  thrown by \<^verbatim>\<open>_loadAndCompileHostComponent\<close> ends the loop; what was done before it stays
  done.\<close>

definition compileDep ::
    "env \<Rightarrow> cache_key list \<Rightarrow> ViewDependency \<Rightarrow> state
       \<Rightarrow> (error + ref list \<times> placeholder) \<times> state" where
  "compileDep e compilingComponentsPath dep s =
     (case dep of
        ViewFactoryDependency depComp \<Rightarrow>
          (let childCacheKey = TypeKey (type_runtime depComp);
               childViewDirectives = getViewDirectivesMetadata e (type_runtime depComp);
               s1 = record_call (CallGetViewDirectivesMetadata (type_runtime depComp)) s;
               childViewPipes = getViewPipesMetadata e (type_runtime depComp);
               s2 = record_call (CallGetViewPipesMetadata (type_runtime depComp)) s1;
               childIsRecursive = (childCacheKey \<in> set compilingComponentsPath);
               childCompilingComponentsPath = compilingComponentsPath @ [childCacheKey];
               (childComp, s3) = loadAndCompileComponent e childCacheKey depComp childViewDirectives
                                   childViewPipes childCompilingComponentsPath s2
           in case templates s3 childComp of
                None \<Rightarrow> (Inl TypeError, s3)
              | Some t \<Rightarrow>
                  (Inr (if \<not> childIsRecursive then [done_promise t] else [],
                        ViewFactoryPlaceholder (proxyViewFactory t)
                          (''viewFactory_'' @ type_name depComp)), s3))
      | ComponentFactoryDependency depComp \<Rightarrow>
          (case loadAndCompileHostComponent e (ident_runtime depComp) s of
             (Inl err, s1) \<Rightarrow> (Inl err, s1)
           | (Inr childComp, s1) \<Rightarrow>
               (Inr ([host_done childComp],
                     CompFactoryPlaceholder (componentFactory childComp)
                       (''compFactory_'' @ ident_name depComp)), s1)))"

fun compileDeps ::
    "env \<Rightarrow> cache_key list \<Rightarrow> ViewDependency list \<Rightarrow> state
       \<Rightarrow> (error + ref list \<times> placeholder list) \<times> state" where
  "compileDeps e path [] s = (Inr ([], []), s)"
| "compileDeps e path (dep # deps) s =
     (case compileDep e path dep s of
        (Inl err, s1) \<Rightarrow> (Inl err, s1)
      | (Inr (cps, ph), s1) \<Rightarrow>
          (case compileDeps e path deps s1 of
             (Inl err, s2) \<Rightarrow> (Inl err, s2)
           | (Inr (cps', phs), s2) \<Rightarrow> (Inr (cps @ cps', ph # phs), s2)))"

text \<open>
  \<^verbatim>\<open>_compileComponent\<close>. The view compiler and the code backends
  (\<^verbatim>\<open>interpretStatements\<close>, \<^verbatim>\<open>jitStatements\<close>) are collaborators that are taken to return
  a result; the exceptions of the method are those of its dependency loop.
\<close>

definition compileComponent ::
    "env \<Rightarrow> CompileDirectiveMetadata \<Rightarrow> string \<Rightarrow> val \<Rightarrow> CompilePipeMetadata list
       \<Rightarrow> cache_key list \<Rightarrow> state \<Rightarrow> (error + Function \<times> ref list) \<times> state" where
  "compileComponent e compMeta parsedTemplate styles pipes compilingComponentsPath s =
     (let compileResult = viewCompileComponent e compMeta parsedTemplate styles pipes;
          s1 = record_call (CallViewCompileComponent compMeta) s
      in case compileDeps e compilingComponentsPath (dependencies compileResult) s1 of
           (Inl err, s2) \<Rightarrow> (Inl err, s2)
         | (Inr (childPromises, phs), s2) \<Rightarrow>
             (Inr (ViewFactoryFn (realize e (type_name compMeta @ ''.template.js''))
                     (statements compileResult) (viewFactoryVar compileResult) phs,
                   childPromises), s2))"

text \<open>The loop of the first \<^verbatim>\<open>then\<close> in \<^verbatim>\<open>_resolveStylesCompileResult\<close>.\<close>

fun compileNested ::
    "env \<Rightarrow> StylesCompileDependency list \<Rightarrow> nat \<Rightarrow> val list \<Rightarrow> state \<Rightarrow> ref list \<times> state" where
  "compileNested e [] i cssTexts s = ([], s)"
| "compileNested e (dep # deps) i cssTexts s =
     (let cssText = nth_val cssTexts i;
          nestedCompileResult = styleCompileStylesheet e (moduleUrl dep) cssText (isShimmed dep);
          s1 = record_call (CallStyleCompileStylesheet (moduleUrl dep) cssText (isShimmed dep)) s;
          (p, s2) = resolveStylesCompileResult e (moduleUrl dep) nestedCompileResult s1;
          (ps, s3) = compileNested e deps (Suc i) cssTexts s2
      in (p # ps, s3))"

text \<open>
  The callback of \<^verbatim>\<open>_loadAndCompileComponent\<close>. It returns
  \<^verbatim>\<open>PromiseWrapper.all(childPromises).then(...)\<close>, which the promise \<open>d\<close> adopts: the task
  that waits for the children settles \<open>d\<close> itself. An exception in the callback rejects
  \<open>d\<close>.
\<close>

definition compileCallback ::
    "env \<Rightarrow> ref \<Rightarrow> ref \<Rightarrow> CompileDirectiveMetadata \<Rightarrow> CompilePipeMetadata list
       \<Rightarrow> cache_key list \<Rightarrow> val list \<Rightarrow> state \<Rightarrow> state" where
  "compileCallback e d compiledTemplate compMeta pipes compilingComponentsPath
       stylesAndNormalizedViewDirMetas s =
     (let normalizedViewDirMetas = drop 1 stylesAndNormalizedViewDirMetas;
          styles = nth_val stylesAndNormalizedViewDirMetas 0;
          s1 = record_call (CallParse compMeta) s
      in case parse e compMeta (template_text compMeta) normalizedViewDirMetas pipes
                (type_name compMeta) of
           Inl err \<Rightarrow> settle d (Rejected err) s1
         | Inr parsedTemplate \<Rightarrow>
             (case compileComponent e compMeta parsedTemplate styles pipes
                     compilingComponentsPath s1 of
                (Inl err, s2) \<Rightarrow> settle d (Rejected err) s2
              | (Inr (factory, childPromises), s2) \<Rightarrow>
                  addTask (ChildrenTask d compiledTemplate childPromises)
                    (init compiledTemplate factory s2)))"

definition removeTask :: "nat \<Rightarrow> state \<Rightarrow> state" where
  "removeTask i s = s\<lparr> tasks := take i (tasks s) @ drop (Suc i) (tasks s) \<rparr>"

definition settled_of :: "error + string \<Rightarrow> promise_state" where
  "settled_of r = (case r of Inl err \<Rightarrow> Rejected err | Inr txt \<Rightarrow> Fulfilled (VString txt))"

text \<open>
  One step of the event loop: the i-th pending task runs if what it waits for is
  settled, and is left alone otherwise.
\<close>

definition runTask :: "env \<Rightarrow> nat \<Rightarrow> state \<Rightarrow> state" where
  "runTask e i s =
     (if length (tasks s) \<le> i then s
      else
        (case tasks s ! i of
           XhrTask p url \<Rightarrow> settle p (settled_of (xhrGet e url)) (removeTask i s)
         | NormalizeTask p dirMeta \<Rightarrow>
             settle p (case normalizeDirective e dirMeta of
                         Inl err \<Rightarrow> Rejected err | Inr m \<Rightarrow> Fulfilled (VMeta m))
               (removeTask i s)
         | StylesFetchedTask out sourceUrl result ps \<Rightarrow>
             (case all_settled (promises s) ps of
                None \<Rightarrow> s
              | Some (Inl err) \<Rightarrow> settle out (Rejected err) (removeTask i s)
              | Some (Inr cssTexts) \<Rightarrow>
                  (let (nested, s1) = compileNested e (css_dependencies result) 0 cssTexts
                                        (removeTask i s)
                   in addTask (StylesNestedTask out sourceUrl result nested) s1))
         | StylesNestedTask out sourceUrl result ps \<Rightarrow>
             (case all_settled (promises s) ps of
                None \<Rightarrow> s
              | Some (Inl err) \<Rightarrow> settle out (Rejected err) (removeTask i s)
              | Some (Inr nestedStylesArr) \<Rightarrow>
                  settle out
                    (Fulfilled (VStyles (realize e (sourceUrl @ ''.css.js''))
                       (css_statements result) (stylesVar result)
                       (map (nth_val nestedStylesArr) [0..<length (css_dependencies result)])))
                    (removeTask i s))
         | CompileTask d compiledTemplate compMeta pipes path ps \<Rightarrow>
             (case all_settled (promises s) ps of
                None \<Rightarrow> s
              | Some (Inl err) \<Rightarrow> settle d (Rejected err) (removeTask i s)
              | Some (Inr vs) \<Rightarrow>
                  compileCallback e d compiledTemplate compMeta pipes path vs (removeTask i s))
         | ChildrenTask d compiledTemplate ps \<Rightarrow>
             (case all_settled (promises s) ps of
                None \<Rightarrow> s
              | Some (Inl err) \<Rightarrow> settle d (Rejected err) (removeTask i s)
              | Some (Inr _) \<Rightarrow> settle d (Fulfilled (VTemplate compiledTemplate)) (removeTask i s))
         | HostTask out d cf \<Rightarrow>
             (case promises s d of
                Some (Fulfilled _) \<Rightarrow> settle out (Fulfilled (VFactory cf)) (removeTask i s)
              | Some (Rejected err) \<Rightarrow> settle out (Rejected err) (removeTask i s)
              | _ \<Rightarrow> s)))"

section \<open>Runs of the compiler\<close>

datatype action = ResolveComponent "Type + string" | ClearCache | RunTask nat

definition perform :: "env \<Rightarrow> action \<Rightarrow> state \<Rightarrow> state" where
  "perform e a s =
     (case a of
        ResolveComponent c \<Rightarrow> snd (resolveComponent e c s)
      | ClearCache \<Rightarrow> clearCache s
      | RunTask i \<Rightarrow> runTask e i s)"

fun performAll :: "env \<Rightarrow> action list \<Rightarrow> state \<Rightarrow> state" where
  "performAll e [] s = s"
| "performAll e (a # as) s = performAll e as (perform e a s)"

section \<open>Invariants of the compiler state\<close>

fun compile_target :: "task \<Rightarrow> ref list" where
  "compile_target (CompileTask d a m p path ps) = [a]"
| "compile_target _ = []"

definition pendingCompiles :: "task list \<Rightarrow> ref list" where
  "pendingCompiles ts = concat (map compile_target ts)"

fun task_path :: "task \<Rightarrow> cache_key list" where
  "task_path (CompileTask d a m p path ps) = path"
| "task_path _ = []"

definition compilePathKeys :: "task list \<Rightarrow> cache_key list" where
  "compilePathKeys ts = concat (map task_path ts)"

definition state_ok :: "state \<Rightarrow> bool" where
  "state_ok s \<longleftrightarrow>
     (\<forall>a t. templates s a = Some t \<longrightarrow> a < nextId s) \<and>
     (\<forall>h a. compiledTemplateCache s (ObjectKey h) = Some a \<longrightarrow> h < nextId s) \<and>
     (\<forall>c k. hostCacheKeys s c = Some k \<longrightarrow> (\<exists>h<nextId s. k = ObjectKey h)) \<and>
     distinct (pendingCompiles (tasks s)) \<and>
     (\<forall>a \<in> set (pendingCompiles (tasks s)). \<exists>t. templates s a = Some t \<and> viewFactory t = None) \<and>
     (\<forall>a t. templates s a = Some t \<longrightarrow> proxyViewFactory t = Proxy a)"

definition style_frame :: "state \<Rightarrow> state \<Rightarrow> bool" where
  "style_frame s s' \<longleftrightarrow>
     compiledTemplateCache s' = compiledTemplateCache s \<and>
     hostCacheKeys s' = hostCacheKeys s \<and>
     templates s' = templates s \<and>
     (\<forall>a<nextId s. factories s' a = factories s a) \<and>
     nextId s \<le> nextId s' \<and>
     pendingCompiles (tasks s') = pendingCompiles (tasks s) \<and>
     compilePathKeys (tasks s') = compilePathKeys (tasks s)"

definition keeps :: "state \<Rightarrow> state \<Rightarrow> bool" where
  "keeps s s' \<longleftrightarrow>
     nextId s \<le> nextId s' \<and>
     (\<forall>k a. compiledTemplateCache s k = Some a \<longrightarrow> compiledTemplateCache s' k = Some a) \<and>
     (\<forall>c k. hostCacheKeys s c = Some k \<longrightarrow> hostCacheKeys s' c = Some k) \<and>
     (\<forall>a<nextId s. factories s' a = factories s a) \<and>
     (\<forall>h<nextId s. compiledTemplateCache s (ObjectKey h) = None
         \<longrightarrow> compiledTemplateCache s' (ObjectKey h) = None)"

definition grows :: "state \<Rightarrow> state \<Rightarrow> bool" where
  "grows s s' \<longleftrightarrow>
     keeps s s' \<and>
     (\<forall>a<nextId s. templates s' a = templates s a) \<and>
     (\<forall>a \<in> set (pendingCompiles (tasks s')).
         a \<in> set (pendingCompiles (tasks s)) \<or> nextId s \<le> a)"

definition template_stable :: "state \<Rightarrow> state \<Rightarrow> bool" where
  "template_stable s s' \<longleftrightarrow>
     (\<forall>a t. templates s a = Some t \<longrightarrow>
        (\<exists>t'. templates s' a = Some t' \<and> proxyViewFactory t' = proxyViewFactory t \<and>
              done_promise t' = done_promise t \<and>
              (viewFactory t = None \<or> viewFactory t' = viewFactory t)))"

text \<open>
  Within one lifetime of the cache, every cached key has its template, and every key on
  the compiling path of a pending compilation is cached.
\<close>

definition links_ok :: "state \<Rightarrow> bool" where
  "links_ok s \<longleftrightarrow>
     (\<forall>k c. compiledTemplateCache s k = Some c \<longrightarrow> templates s c \<noteq> None) \<and>
     (\<forall>k \<in> set (compilePathKeys (tasks s)). compiledTemplateCache s k \<noteq> None)"

text \<open>
  A dependency is a back reference when it asks for the view of a component whose key is
  on the compiling path. The placeholder such a dependency is patched with is the proxy
  of the template cached for that component.
\<close>

definition back_reference :: "cache_key list \<Rightarrow> ViewDependency \<Rightarrow> bool" where
  "back_reference path dep =
     (case dep of
        ViewFactoryDependency m \<Rightarrow> TypeKey (type_runtime m) \<in> set path
      | ComponentFactoryDependency ci \<Rightarrow> False)"

definition cached_placeholder :: "state \<Rightarrow> ViewDependency \<Rightarrow> placeholder option" where
  "cached_placeholder s dep =
     (case dep of
        ViewFactoryDependency m \<Rightarrow>
          (case compiledTemplateCache s (TypeKey (type_runtime m)) of
             None \<Rightarrow> None
           | Some c \<Rightarrow>
               map_option
                 (\<lambda>t. ViewFactoryPlaceholder (proxyViewFactory t) (''viewFactory_'' @ type_name m))
                 (templates s c))
      | ComponentFactoryDependency ci \<Rightarrow> None)"

text \<open>
  The invocations of the view compiler. \<open>view_calls\<close> counts them in a trace. A step of a
  run is a compile step for a template when it runs the reaction that
  \<^verbatim>\<open>_loadAndCompileComponent\<close> registered for that template (the \<^verbatim>\<open>then\<close> callback that
  parses the template and calls \<^verbatim>\<open>_compileComponent\<close>, or its skipping when an input was
  rejected). \<open>view_calls_for\<close> adds up, over a run, the view compiler invocations made in
  the compile steps of one template.
\<close>

fun is_view_call :: "event \<Rightarrow> bool" where
  "is_view_call (CallViewCompileComponent m) = True"
| "is_view_call _ = False"

definition view_calls :: "event list \<Rightarrow> nat" where
  "view_calls tr = length (filter is_view_call tr)"



section \<open>An example configuration\<close>

text \<open>
  Collaborators for a small application: every component has the template
  \<^verbatim>\<open><cmp></cmp>\<close> and the selector \<^verbatim>\<open>cmp\<close>, so that each component includes itself;
  component 2 imports the stylesheet \<^verbatim>\<open>a.css\<close>; class 9 is a directive, not a
  component.
\<close>

definition example_meta :: "Type \<Rightarrow> CompileDirectiveMetadata" where
  "example_meta c = \<lparr> type_runtime = c, type_name = ''Cmp'', isComponent = (c \<noteq> 9),
     selector = ''cmp'', template_text = ''<cmp></cmp>'' \<rparr>"

definition example_env :: env where
  "example_env = \<lparr>
     getDirectiveMetadata = example_meta,
     getViewDirectivesMetadata = (\<lambda>c. []),
     getViewPipesMetadata = (\<lambda>c. []),
     createHostComponentMeta = (\<lambda>rt nm sel. \<lparr> type_runtime = rt, type_name = ''Host'',
        isComponent = True, selector = ''*'', template_text = ''<cmp></cmp>'' \<rparr>),
     styleCompileComponent = (\<lambda>m. \<lparr> css_statements = ''styles'', stylesVar = ''styles'',
        css_dependencies = (if type_runtime m = 2 \<and> type_name m = ''Cmp''
                            then [\<lparr> moduleUrl = ''a.css'', isShimmed = True \<rparr>] else []) \<rparr>),
     styleCompileStylesheet = (\<lambda>url txt shim. \<lparr> css_statements = ''imported'',
        stylesVar = ''styles'', css_dependencies = [] \<rparr>),
     normalizeDirective = (\<lambda>m. Inr m),
     parse = (\<lambda>m txt dirs pipes nm. Inr txt),
     viewCompileComponent = (\<lambda>m ast st pipes. \<lparr> statements = ''view'', viewFactoryVar = ''viewFactory'',
        dependencies = [ViewFactoryDependency (example_meta (type_runtime m))] \<rparr>),
     xhrGet = (\<lambda>url. Inr ''body {}''),
     useJit = False,
     IS_DART = False \<rparr>"

text \<open>
  A second application: component 10 includes the components 11 and 12, component 11
  includes 12, and component 12 includes 11.
\<close>

definition sibling_env :: env where
  "sibling_env = example_env \<lparr>
     viewCompileComponent := (\<lambda>m ast st pipes. \<lparr> statements = ''view'',
        viewFactoryVar = ''viewFactory'',
        dependencies =
          (if type_name m = ''Host'' then [ViewFactoryDependency (example_meta (type_runtime m))]
           else if type_runtime m = 10
             then [ViewFactoryDependency (example_meta 11), ViewFactoryDependency (example_meta 12)]
           else if type_runtime m = 11 then [ViewFactoryDependency (example_meta 12)]
           else if type_runtime m = 12 then [ViewFactoryDependency (example_meta 11)]
           else []) \<rparr>) \<rparr>"

text \<open>
  A third application: component 1 refers to the directive 9 by a host-factory
  dependency.
\<close>

definition host_dep_env :: env where
  "host_dep_env = example_env \<lparr>
     viewCompileComponent := (\<lambda>m ast st pipes. \<lparr> statements = ''view'',
        viewFactoryVar = ''viewFactory'',
        dependencies =
          (if type_name m = ''Host'' then [ViewFactoryDependency (example_meta (type_runtime m))]
           else [ComponentFactoryDependency \<lparr> ident_runtime = 9, ident_name = ''Dir'' \<rparr>]) \<rparr>) \<rparr>"


section \<open>Preservation lemmas\<close>

lemma compilePathKeys_simps [simp]:
  "compilePathKeys [] = []"
  "compilePathKeys (t # ts) = task_path t @ compilePathKeys ts"
  "compilePathKeys (ts @ us) = compilePathKeys ts @ compilePathKeys us"
  by (simp_all add: compilePathKeys_def)

lemma pendingCompiles_simps [simp]:
  "pendingCompiles [] = []"
  "pendingCompiles (t # ts) = compile_target t @ pendingCompiles ts"
  "pendingCompiles (ts @ us) = pendingCompiles ts @ pendingCompiles us"
  by (simp_all add: pendingCompiles_def)

subsection \<open>Style compilation and normalization leave templates and caches alone\<close>

lemma style_frame_refl [simp]: "style_frame s s"
  by (simp add: style_frame_def)

lemma style_frame_trans: "style_frame s s1 \<Longrightarrow> style_frame s1 s2 \<Longrightarrow> style_frame s s2"
  by (auto simp: style_frame_def)

lemma style_frame_state_ok: "style_frame s s' \<Longrightarrow> state_ok s \<Longrightarrow> state_ok s'"
  unfolding style_frame_def state_ok_def
  apply (intro conjI)
       apply (metis less_le_trans)
      apply (metis less_le_trans)
     apply (metis less_le_trans)
    apply simp
   apply simp
  apply simp
  done

lemma loadStylesheetDep_frame: "loadStylesheetDep e dep s = (p, s') \<Longrightarrow> style_frame s s'"
  by (auto simp: loadStylesheetDep_def Let_def newPromise_def addTask_def record_call_def
        style_frame_def split: option.splits)

lemma loadStylesheetDeps_frame: "loadStylesheetDeps e deps s = (ps, s') \<Longrightarrow> style_frame s s'"
proof (induction deps arbitrary: s ps s')
  case Nil
  then show ?case by simp
next
  case (Cons dep deps)
  obtain p s1 where a: "loadStylesheetDep e dep s = (p, s1)" by force
  obtain qs s2 where b: "loadStylesheetDeps e deps s1 = (qs, s2)" by force
  from Cons.prems a b have "s' = s2" by simp
  with loadStylesheetDep_frame [OF a] Cons.IH [OF b] show ?case
    by (blast intro: style_frame_trans)
qed

lemma resolveStylesCompileResult_frame:
  "resolveStylesCompileResult e u r s = (p, s') \<Longrightarrow> style_frame s s'"
proof -
  assume h: "resolveStylesCompileResult e u r s = (p, s')"
  obtain ps s1 where a: "loadStylesheetDeps e (css_dependencies r) s = (ps, s1)" by force
  from h a have "s' = addTask (StylesFetchedTask p u r ps) (snd (newPromise Pending s1))"
    by (auto simp: resolveStylesCompileResult_def newPromise_def)
  then have "style_frame s1 s'"
    by (simp add: style_frame_def addTask_def newPromise_def)
  with loadStylesheetDeps_frame [OF a] show ?thesis by (blast intro: style_frame_trans)
qed

lemma compileComponentStyles_frame:
  "compileComponentStyles e m s = (p, s') \<Longrightarrow> style_frame s s'"
proof -
  assume h: "compileComponentStyles e m s = (p, s')"
  have "style_frame s (record_call (CallStyleCompileComponent m) s)"
    by (simp add: style_frame_def record_call_def)
  moreover from h have "style_frame (record_call (CallStyleCompileComponent m) s) s'"
    by (auto simp: compileComponentStyles_def Let_def intro: resolveStylesCompileResult_frame)
  ultimately show ?thesis by (blast intro: style_frame_trans)
qed

lemma normalizeDirectives_frame: "normalizeDirectives e ds s = (ps, s') \<Longrightarrow> style_frame s s'"
proof (induction ds arbitrary: s ps s')
  case Nil
  then show ?case by simp
next
  case (Cons d ds)
  let ?s2 = "addTask (NormalizeTask (nextId s) d)
               (snd (newPromise Pending (record_call (CallNormalizeDirective d) s)))"
  obtain qs s3 where b: "normalizeDirectives e ds ?s2 = (qs, s3)" by force
  from Cons.prems b have "s' = s3" by (simp add: newPromise_def Let_def record_call_def)
  moreover have "style_frame s ?s2"
    by (simp add: style_frame_def addTask_def newPromise_def record_call_def)
  ultimately show ?case using Cons.IH [OF b] by (blast intro: style_frame_trans)
qed

lemma compileNested_frame: "compileNested e deps i txts s = (ps, s') \<Longrightarrow> style_frame s s'"
proof (induction deps arbitrary: i s ps s')
  case Nil
  then show ?case by simp
next
  case (Cons dep deps)
  let ?s1 = "record_call (CallStyleCompileStylesheet (moduleUrl dep) (nth_val txts i) (isShimmed dep)) s"
  obtain p s2 where a: "resolveStylesCompileResult e (moduleUrl dep)
      (styleCompileStylesheet e (moduleUrl dep) (nth_val txts i) (isShimmed dep)) ?s1 = (p, s2)" by force
  obtain qs s3 where b: "compileNested e deps (Suc i) txts s2 = (qs, s3)" by force
  from Cons.prems a b have "s' = s3" by (simp add: Let_def)
  moreover have "style_frame s ?s1" by (simp add: style_frame_def record_call_def)
  ultimately show ?case
    using resolveStylesCompileResult_frame [OF a] Cons.IH [OF b]
    by (blast intro: style_frame_trans)
qed

subsection \<open>The synchronous methods only add to the state\<close>

lemma keeps_refl [simp]: "keeps s s"
  by (simp add: keeps_def)

lemma keeps_trans:
  assumes "keeps s s1" "keeps s1 s2"
  shows "keeps s s2"
proof -
  have n: "nextId s \<le> nextId s1" "nextId s1 \<le> nextId s2"
    using assms by (simp_all add: keeps_def)
  have 1: "\<forall>k a. compiledTemplateCache s k = Some a \<longrightarrow> compiledTemplateCache s2 k = Some a"
    using assms by (simp add: keeps_def)
  have 2: "\<forall>c k. hostCacheKeys s c = Some k \<longrightarrow> hostCacheKeys s2 c = Some k"
    using assms by (simp add: keeps_def)
  have 3: "\<forall>a<nextId s. factories s2 a = factories s a"
    using assms n by (simp add: keeps_def)
  have 4: "\<forall>h<nextId s. compiledTemplateCache s (ObjectKey h) = None
             \<longrightarrow> compiledTemplateCache s2 (ObjectKey h) = None"
    using assms n by (simp add: keeps_def)
  from n 1 2 3 4 show ?thesis by (simp add: keeps_def)
qed

lemma grows_refl [simp]: "grows s s"
  by (simp add: grows_def)

lemma grows_trans:
  assumes "grows s s1" "grows s1 s2"
  shows "grows s s2"
proof -
  have k: "keeps s s2" using assms by (auto simp: grows_def intro: keeps_trans)
  have n: "nextId s \<le> nextId s1" using assms by (simp add: grows_def keeps_def)
  have t: "\<forall>a<nextId s. templates s2 a = templates s a"
    using assms n by (simp add: grows_def)
  have p: "\<forall>a \<in> set (pendingCompiles (tasks s2)).
             a \<in> set (pendingCompiles (tasks s)) \<or> nextId s \<le> a"
    using assms n unfolding grows_def by (meson le_trans)
  from k t p show ?thesis by (simp add: grows_def)
qed

lemma style_frame_grows: "style_frame s s' \<Longrightarrow> grows s s'"
  by (simp add: style_frame_def grows_def keeps_def)

lemma loadAndCompileComponent_cached:
  "compiledTemplateCache s k = Some a \<Longrightarrow> loadAndCompileComponent e k m vd p path s = (a, s)"
  by (simp add: loadAndCompileComponent_def)

lemma loadAndCompileComponent_fresh:
  assumes "compiledTemplateCache s k = None"
    and "loadAndCompileComponent e k m vd p path s = (a, s')"
  shows "\<exists>s2 ins. style_frame s s2 \<and> a = Suc (nextId s2) \<and> nextId s' = Suc (Suc (nextId s2)) \<and>
           templates s' = (templates s2)(a \<mapsto>
              \<lparr> viewFactory = None, proxyViewFactory = Proxy a, done_promise = nextId s2 \<rparr>) \<and>
           compiledTemplateCache s' = (compiledTemplateCache s2)(k \<mapsto> a) \<and>
           hostCacheKeys s' = hostCacheKeys s2 \<and>
           factories s' = factories s2 \<and>
           styleCache s' = styleCache s2 \<and>
           promises s' = (promises s2)(nextId s2 \<mapsto> Pending) \<and>
           tasks s' = tasks s2 @ [CompileTask (nextId s2) a m p path ins] \<and>
           trace s' = trace s2 @ [TemplateCacheSet k a]"
proof -
  obtain stylesP s1 where a1: "compileComponentStyles e m s = (stylesP, s1)" by force
  obtain normPs s2 where a2: "normalizeDirectives e vd s1 = (normPs, s2)" by force
  have f: "style_frame s s2"
    using compileComponentStyles_frame [OF a1] normalizeDirectives_frame [OF a2]
    by (blast intro: style_frame_trans)
  from assms a1 a2 have
    "a = Suc (nextId s2) \<and> nextId s' = Suc (Suc (nextId s2)) \<and>
           templates s' = (templates s2)(a \<mapsto>
              \<lparr> viewFactory = None, proxyViewFactory = Proxy a, done_promise = nextId s2 \<rparr>) \<and>
           compiledTemplateCache s' = (compiledTemplateCache s2)(k \<mapsto> a) \<and>
           hostCacheKeys s' = hostCacheKeys s2 \<and>
           factories s' = factories s2 \<and>
           styleCache s' = styleCache s2 \<and>
           promises s' = (promises s2)(nextId s2 \<mapsto> Pending) \<and>
           tasks s' = tasks s2 @ [CompileTask (nextId s2) a m p path (stylesP # normPs)] \<and>
           trace s' = trace s2 @ [TemplateCacheSet k a]"
    by (auto simp: loadAndCompileComponent_def newPromise_def newCompiledTemplate_def
          addTask_def record_call_def Let_def)
  with f show ?thesis by blast
qed

lemma loadAndCompileComponent_cache:
  assumes "loadAndCompileComponent e k m vd p path s = (a, s')"
  shows "compiledTemplateCache s' = (compiledTemplateCache s)(k \<mapsto> a) \<and>
         (\<forall>b. compiledTemplateCache s k = Some b \<longrightarrow> a = b)"
proof (cases "compiledTemplateCache s k")
  case None
  from loadAndCompileComponent_fresh [OF None assms] None show ?thesis
    by (auto simp: style_frame_def)
next
  case (Some b)
  with assms show ?thesis by (auto simp: loadAndCompileComponent_def)
qed

lemma loadAndCompileComponent_hostCacheKeys:
  assumes "loadAndCompileComponent e k m vd p path s = (a, s')"
  shows "hostCacheKeys s' = hostCacheKeys s \<and> (\<forall>x<nextId s. factories s' x = factories s x)"
proof (cases "compiledTemplateCache s k")
  case None
  from loadAndCompileComponent_fresh [OF None assms] None show ?thesis
    by (auto simp: style_frame_def)
next
  case (Some b)
  with assms show ?thesis by (auto simp: loadAndCompileComponent_def)
qed

lemma loadAndCompileComponent_frame:
  assumes "loadAndCompileComponent e k m vd p path s = (a, s')"
  shows "nextId s \<le> nextId s' \<and> (\<forall>x<nextId s. templates s' x = templates s x) \<and>
         (\<forall>x \<in> set (pendingCompiles (tasks s')).
             x \<in> set (pendingCompiles (tasks s)) \<or> nextId s \<le> x)"
proof (cases "compiledTemplateCache s k")
  case None
  from loadAndCompileComponent_fresh [OF None assms] None show ?thesis
    by (auto simp: style_frame_def)
next
  case (Some b)
  with assms show ?thesis by (auto simp: loadAndCompileComponent_def)
qed

lemma loadAndCompileComponent_grows:
  assumes "loadAndCompileComponent e (TypeKey c) m vd p path s = (a, s')"
  shows "grows s s'"
  using loadAndCompileComponent_cache [OF assms] loadAndCompileComponent_hostCacheKeys [OF assms]
    loadAndCompileComponent_frame [OF assms]
  by (auto simp: grows_def keeps_def)

lemma loadAndCompileComponent_state_ok:
  assumes "loadAndCompileComponent e k m vd p path s = (a, s')" and "state_ok s"
    and "\<forall>h. k = ObjectKey h \<longrightarrow> h < nextId s"
  shows "state_ok s'"
proof (cases "compiledTemplateCache s k")
  case (Some b)
  with assms show ?thesis by (auto simp: loadAndCompileComponent_def)
next
  case None
  from loadAndCompileComponent_fresh [OF None assms(1)] obtain s2 ins where
    f: "style_frame s s2" and a: "a = Suc (nextId s2)" and n: "nextId s' = Suc (Suc (nextId s2))"
    and t: "templates s' = (templates s2)(a \<mapsto>
              \<lparr> viewFactory = None, proxyViewFactory = Proxy a, done_promise = nextId s2 \<rparr>)"
    and c: "compiledTemplateCache s' = (compiledTemplateCache s2)(k \<mapsto> a)"
    and h: "hostCacheKeys s' = hostCacheKeys s2"
    and ts: "tasks s' = tasks s2 @ [CompileTask (nextId s2) a m p path ins]"
    by blast
  have ok2: "state_ok s2" using style_frame_state_ok [OF f assms(2)] .
  have le: "nextId s \<le> nextId s2" using f by (simp add: style_frame_def)
  have fresh: "a \<notin> set (pendingCompiles (tasks s2))"
    using ok2 a unfolding state_ok_def by (metis Suc_n_not_le_n less_imp_le_nat)
  have 1: "\<forall>x t. templates s' x = Some t \<longrightarrow> x < nextId s'"
    using ok2 t n a unfolding state_ok_def by (auto simp: less_Suc_eq)
  have 2: "\<forall>h x. compiledTemplateCache s' (ObjectKey h) = Some x \<longrightarrow> h < nextId s'"
    using ok2 c n assms(3) le unfolding state_ok_def by (auto simp: less_Suc_eq split: if_splits)
  have 3: "\<forall>c k. hostCacheKeys s' c = Some k \<longrightarrow> (\<exists>h<nextId s'. k = ObjectKey h)"
    using ok2 h n unfolding state_ok_def by (metis less_Suc_eq)
  have 4: "distinct (pendingCompiles (tasks s'))"
    using ok2 ts fresh unfolding state_ok_def by simp
  have 5: "\<forall>x \<in> set (pendingCompiles (tasks s')). \<exists>t. templates s' x = Some t \<and> viewFactory t = None"
    using ok2 ts t fresh unfolding state_ok_def by auto
  have 6: "\<forall>x t. templates s' x = Some t \<longrightarrow> proxyViewFactory t = Proxy x"
    using ok2 t unfolding state_ok_def by auto
  from 1 2 3 4 5 6 show ?thesis unfolding state_ok_def by blast
qed

lemma newCompileHostTemplate_frame:
  "newCompileHostTemplate tmpl m s = (r, s') \<Longrightarrow> style_frame s s'"
  by (auto simp: newCompileHostTemplate_def Let_def newPromise_def addTask_def style_frame_def
        split: option.splits)

lemma record_call_frame [simp]: "style_frame s (record_call ev s)"
  by (simp add: style_frame_def record_call_def)

lemma loadAndCompileHostComponent_grows:
  assumes "loadAndCompileHostComponent e c s = (r, s')"
  shows "grows s s'"
proof -
  let ?m = "getDirectiveMetadata e c"
  let ?s1 = "record_call (CallGetDirectiveMetadata c) s"
  have g1: "grows s ?s1" by (simp add: style_frame_grows)
  show ?thesis
  proof (cases "hostCacheKeys ?s1 (type_runtime ?m)")
    case (Some k)
    with assms have "newCompileHostTemplate (compiledTemplateCache ?s1 k) ?m ?s1 = (r, s')"
      by (simp add: loadAndCompileHostComponent_def Let_def)
    from newCompileHostTemplate_frame [OF this] g1 show ?thesis
      by (blast intro: grows_trans style_frame_grows)
  next
    case None
    let ?k = "ObjectKey (nextId ?s1)"
    let ?s2 = "?s1\<lparr> hostCacheKeys := (hostCacheKeys ?s1)(type_runtime ?m \<mapsto> ?k),
                     nextId := Suc (nextId ?s1) \<rparr>"
    have g2: "grows s ?s2" using None
      by (auto simp: grows_def keeps_def record_call_def)
    show ?thesis
    proof (cases "isComponent ?m")
      case False
      with assms None have "s' = ?s2"
        by (simp add: loadAndCompileHostComponent_def Let_def assertComponent_def)
      with g2 show ?thesis by simp
    next
      case True
      let ?hm = "createHostComponentMeta e (type_runtime ?m) (type_name ?m) (selector ?m)"
      obtain a s3 where l: "loadAndCompileComponent e ?k ?hm [?m] [] [] ?s2 = (a, s3)" by force
      from assms None True l have
        n: "newCompileHostTemplate (compiledTemplateCache s3 ?k) ?m s3 = (r, s')"
        by (simp add: loadAndCompileHostComponent_def Let_def assertComponent_def)
      have "grows s s3"
        using loadAndCompileComponent_cache [OF l] loadAndCompileComponent_hostCacheKeys [OF l]
          loadAndCompileComponent_frame [OF l] None
        by (auto simp: grows_def keeps_def record_call_def)
      with newCompileHostTemplate_frame [OF n] show ?thesis
        by (blast intro: grows_trans style_frame_grows)
    qed
  qed
qed

lemma state_ok_new_host_key:
  assumes "state_ok s"
  shows "state_ok (s\<lparr> hostCacheKeys := (hostCacheKeys s)(c \<mapsto> ObjectKey (nextId s)),
                     nextId := Suc (nextId s) \<rparr>)"
proof -
  have 1: "\<forall>a t. templates s a = Some t \<longrightarrow> a < Suc (nextId s)"
    using assms unfolding state_ok_def by (meson less_SucI)
  have 2: "\<forall>h a. compiledTemplateCache s (ObjectKey h) = Some a \<longrightarrow> h < Suc (nextId s)"
    using assms unfolding state_ok_def by (meson less_SucI)
  have 3: "\<forall>c' k. ((hostCacheKeys s)(c \<mapsto> ObjectKey (nextId s))) c' = Some k
             \<longrightarrow> (\<exists>h<Suc (nextId s). k = ObjectKey h)"
  proof (intro allI impI)
    fix c' k
    assume h: "((hostCacheKeys s)(c \<mapsto> ObjectKey (nextId s))) c' = Some k"
    show "\<exists>h<Suc (nextId s). k = ObjectKey h"
    proof (cases "c' = c")
      case True
      with h show ?thesis by auto
    next
      case False
      with h have "hostCacheKeys s c' = Some k" by simp
      with assms obtain h' where "h' < nextId s" "k = ObjectKey h'"
        unfolding state_ok_def by blast
      then show ?thesis by (auto intro: less_SucI)
    qed
  qed
  from 1 2 3 assms show ?thesis unfolding state_ok_def by simp
qed

lemma loadAndCompileHostComponent_state_ok:
  assumes "loadAndCompileHostComponent e c s = (r, s')" and ok: "state_ok s"
  shows "state_ok s'"
proof -
  let ?m = "getDirectiveMetadata e c"
  let ?s1 = "record_call (CallGetDirectiveMetadata c) s"
  have ok1: "state_ok ?s1" using ok by (simp add: state_ok_def record_call_def)
  show ?thesis
  proof (cases "hostCacheKeys ?s1 (type_runtime ?m)")
    case (Some k)
    with assms have "newCompileHostTemplate (compiledTemplateCache ?s1 k) ?m ?s1 = (r, s')"
      by (simp add: loadAndCompileHostComponent_def Let_def)
    from newCompileHostTemplate_frame [OF this] ok1 show ?thesis
      by (blast intro: style_frame_state_ok)
  next
    case None
    let ?k = "ObjectKey (nextId ?s1)"
    let ?s2 = "?s1\<lparr> hostCacheKeys := (hostCacheKeys ?s1)(type_runtime ?m \<mapsto> ?k),
                     nextId := Suc (nextId ?s1) \<rparr>"
    have ok2: "state_ok ?s2" using ok1 by (rule state_ok_new_host_key)
    show ?thesis
    proof (cases "isComponent ?m")
      case False
      with assms None have "s' = ?s2"
        by (simp add: loadAndCompileHostComponent_def Let_def assertComponent_def)
      with ok2 show ?thesis by simp
    next
      case True
      let ?hm = "createHostComponentMeta e (type_runtime ?m) (type_name ?m) (selector ?m)"
      obtain a s3 where l: "loadAndCompileComponent e ?k ?hm [?m] [] [] ?s2 = (a, s3)" by force
      from assms None True l have
        n: "newCompileHostTemplate (compiledTemplateCache s3 ?k) ?m s3 = (r, s')"
        by (simp add: loadAndCompileHostComponent_def Let_def assertComponent_def)
      have "state_ok s3"
        by (rule loadAndCompileComponent_state_ok [OF l ok2]) simp
      with newCompileHostTemplate_frame [OF n] show ?thesis
        by (blast intro: style_frame_state_ok)
    qed
  qed
qed

lemma compileDep_grows:
  assumes "compileDep e path dep s = (r, s')"
  shows "grows s s'"
proof (cases dep)
  case (ViewFactoryDependency m)
  let ?c = "type_runtime m"
  let ?s2 = "record_call (CallGetViewPipesMetadata ?c) (record_call (CallGetViewDirectivesMetadata ?c) s)"
  obtain a s3 where l: "loadAndCompileComponent e (TypeKey ?c) m (getViewDirectivesMetadata e ?c)
      (getViewPipesMetadata e ?c) (path @ [TypeKey ?c]) ?s2 = (a, s3)" by force
  from assms ViewFactoryDependency l have "s' = s3"
    by (auto simp: compileDep_def Let_def split: option.splits)
  moreover have "grows s ?s2"
    by (simp add: grows_def keeps_def record_call_def)
  ultimately show ?thesis using loadAndCompileComponent_grows [OF l]
    by (blast intro: grows_trans)
next
  case (ComponentFactoryDependency ci)
  obtain r1 s1 where l: "loadAndCompileHostComponent e (ident_runtime ci) s = (r1, s1)" by force
  from assms ComponentFactoryDependency l have "s' = s1"
    by (auto simp: compileDep_def split: sum.splits)
  with loadAndCompileHostComponent_grows [OF l] show ?thesis by simp
qed

lemma compileDep_state_ok:
  assumes "compileDep e path dep s = (r, s')" and ok: "state_ok s"
  shows "state_ok s'"
proof (cases dep)
  case (ViewFactoryDependency m)
  let ?c = "type_runtime m"
  let ?s2 = "record_call (CallGetViewPipesMetadata ?c) (record_call (CallGetViewDirectivesMetadata ?c) s)"
  obtain a s3 where l: "loadAndCompileComponent e (TypeKey ?c) m (getViewDirectivesMetadata e ?c)
      (getViewPipesMetadata e ?c) (path @ [TypeKey ?c]) ?s2 = (a, s3)" by force
  from assms ViewFactoryDependency l have "s' = s3"
    by (auto simp: compileDep_def Let_def split: option.splits)
  moreover have "state_ok ?s2"
    using ok by (simp add: state_ok_def record_call_def)
  ultimately show ?thesis using loadAndCompileComponent_state_ok [OF l]
    by simp
next
  case (ComponentFactoryDependency ci)
  obtain r1 s1 where l: "loadAndCompileHostComponent e (ident_runtime ci) s = (r1, s1)" by force
  from assms ComponentFactoryDependency l have "s' = s1"
    by (auto simp: compileDep_def split: sum.splits)
  with loadAndCompileHostComponent_state_ok [OF l ok] show ?thesis by simp
qed

lemma compileDeps_grows_ok:
  "compileDeps e path deps s = (r, s') \<Longrightarrow> grows s s' \<and> (state_ok s \<longrightarrow> state_ok s')"
proof (induction deps arbitrary: s r s')
  case Nil
  then show ?case by simp
next
  case (Cons dep deps)
  obtain r1 s1 where a: "compileDep e path dep s = (r1, s1)" by force
  note g1 = compileDep_grows [OF a] and o1 = compileDep_state_ok [OF a]
  show ?case
  proof (cases r1)
    case (Inl err)
    with Cons.prems a have "s' = s1" by simp
    with g1 o1 show ?thesis by blast
  next
    case (Inr res)
    obtain r2 s2 where b: "compileDeps e path deps s1 = (r2, s2)" by force
    from Cons.prems a b Inr have "s' = s2" by (auto split: sum.splits prod.splits)
    with Cons.IH [OF b] g1 o1 show ?thesis by (blast intro: grows_trans)
  qed
qed

lemma compileComponent_grows_ok:
  assumes "compileComponent e m ast st pipes path s = (r, s')"
  shows "grows s s' \<and> (state_ok s \<longrightarrow> state_ok s')"
proof -
  let ?s1 = "record_call (CallViewCompileComponent m) s"
  obtain r2 s2 where b: "compileDeps e path
      (dependencies (viewCompileComponent e m ast st pipes)) ?s1 = (r2, s2)" by force
  from assms b have "s' = s2"
    by (auto simp: compileComponent_def Let_def split: sum.splits prod.splits)
  moreover have "grows s ?s1" by (simp add: style_frame_grows)
  moreover have "state_ok s \<longrightarrow> state_ok ?s1" by (simp add: state_ok_def record_call_def)
  ultimately show ?thesis using compileDeps_grows_ok [OF b] by (blast intro: grows_trans)
qed

subsection \<open>Steps of the event loop\<close>

lemma template_stable_refl [simp]: "template_stable s s"
  by (simp add: template_stable_def)

lemma template_stable_trans:
  assumes "template_stable s s1" "template_stable s1 s2"
  shows "template_stable s s2"
  unfolding template_stable_def
proof (intro allI impI)
  fix a t
  assume "templates s a = Some t"
  with assms(1) obtain t1 where 1: "templates s1 a = Some t1"
    "proxyViewFactory t1 = proxyViewFactory t" "done_promise t1 = done_promise t"
    "viewFactory t = None \<or> viewFactory t1 = viewFactory t"
    unfolding template_stable_def by blast
  with assms(2) obtain t2 where 2: "templates s2 a = Some t2"
    "proxyViewFactory t2 = proxyViewFactory t1" "done_promise t2 = done_promise t1"
    "viewFactory t1 = None \<or> viewFactory t2 = viewFactory t1"
    unfolding template_stable_def by blast
  from 1 2 show "\<exists>t'. templates s2 a = Some t' \<and> proxyViewFactory t' = proxyViewFactory t \<and>
              done_promise t' = done_promise t \<and>
              (viewFactory t = None \<or> viewFactory t' = viewFactory t)"
    by auto
qed

lemma grows_template_stable: "grows s s' \<Longrightarrow> state_ok s \<Longrightarrow> template_stable s s'"
  unfolding grows_def state_ok_def template_stable_def by metis

lemma removeTask_pending:
  assumes "i < length (tasks s)"
  shows "pendingCompiles (tasks s) =
           pendingCompiles (take i (tasks s)) @ compile_target (tasks s ! i)
             @ pendingCompiles (drop (Suc i) (tasks s))"
proof -
  have "tasks s = take i (tasks s) @ [tasks s ! i] @ drop (Suc i) (tasks s)"
    using assms by (simp add: id_take_nth_drop)
  then have "pendingCompiles (tasks s) =
      pendingCompiles (take i (tasks s) @ [tasks s ! i] @ drop (Suc i) (tasks s))"
    by simp
  then show ?thesis by simp
qed

lemma removeTask_fields [simp]:
  "templates (removeTask i s) = templates s"
  "compiledTemplateCache (removeTask i s) = compiledTemplateCache s"
  "hostCacheKeys (removeTask i s) = hostCacheKeys s"
  "nextId (removeTask i s) = nextId s"
  "promises (removeTask i s) = promises s"
  "factories (removeTask i s) = factories s"
  "tasks (removeTask i s) = take i (tasks s) @ drop (Suc i) (tasks s)"
  by (simp_all add: removeTask_def)

lemma settle_fields [simp]:
  "templates (settle p st s) = templates s"
  "compiledTemplateCache (settle p st s) = compiledTemplateCache s"
  "hostCacheKeys (settle p st s) = hostCacheKeys s"
  "nextId (settle p st s) = nextId s"
  "tasks (settle p st s) = tasks s"
  "factories (settle p st s) = factories s"
  by (simp_all add: settle_def)

lemma removeTask_state_ok:
  assumes "state_ok s" "i < length (tasks s)"
  shows "state_ok (removeTask i s)"
  using assms(1) removeTask_pending [OF assms(2)]
  unfolding state_ok_def by auto

lemma removeTask_compile_gone:
  assumes "state_ok s" "i < length (tasks s)" "tasks s ! i = CompileTask d a m p path ps"
  shows "a \<notin> set (pendingCompiles (tasks (removeTask i s)))"
    and "\<exists>t. templates s a = Some t \<and> viewFactory t = None"
proof -
  have d: "distinct (pendingCompiles (tasks s))" using assms(1) by (simp add: state_ok_def)
  have e: "pendingCompiles (tasks s) = pendingCompiles (take i (tasks s)) @ [a]
             @ pendingCompiles (drop (Suc i) (tasks s))"
    using removeTask_pending [OF assms(2)] assms(3) by simp
  from d e show "a \<notin> set (pendingCompiles (tasks (removeTask i s)))" by auto
  from e have "a \<in> set (pendingCompiles (tasks s))" by simp
  with assms(1) show "\<exists>t. templates s a = Some t \<and> viewFactory t = None"
    unfolding state_ok_def by blast
qed

lemma removeTask_style_like:
  "i < length (tasks s) \<Longrightarrow> keeps s (removeTask i s) \<and> template_stable s (removeTask i s)"
  by (simp add: keeps_def template_stable_def)

lemma settle_state_ok [simp]: "state_ok (settle p st s) = state_ok s"
  by (simp add: state_ok_def)

lemma settle_keeps [simp]: "keeps s (settle p st s')= keeps s s'"
  by (simp add: keeps_def)

lemma settle_template_stable [simp]: "template_stable s (settle p st s') = template_stable s s'"
  by (simp add: template_stable_def)

lemma init_state_ok:
  assumes "state_ok s" "a \<notin> set (pendingCompiles (tasks s))"
  shows "state_ok (addTask (ChildrenTask d a cps) (init a f s))"
proof -
  let ?s = "addTask (ChildrenTask d a cps) (init a f s)"
  have t: "\<forall>x. x \<noteq> a \<longrightarrow> templates ?s x = templates s x"
    by (simp add: addTask_def init_def)
  have ta: "\<forall>y. templates ?s a = Some y \<longrightarrow> (\<exists>z. templates s a = Some z)"
    by (auto simp: addTask_def init_def)
  have p: "pendingCompiles (tasks ?s) = pendingCompiles (tasks s)"
    by (simp add: addTask_def init_def)
  have o: "compiledTemplateCache ?s = compiledTemplateCache s" "hostCacheKeys ?s = hostCacheKeys s"
    "nextId ?s = nextId s"
    by (simp_all add: addTask_def init_def)
  have 1: "\<forall>x y. templates ?s x = Some y \<longrightarrow> x < nextId ?s"
    using assms(1) t ta o unfolding state_ok_def by metis
  have 5: "\<forall>x \<in> set (pendingCompiles (tasks ?s)). \<exists>y. templates ?s x = Some y \<and> viewFactory y = None"
    using assms t p unfolding state_ok_def by metis
  have 6: "\<forall>x y. templates ?s x = Some y \<longrightarrow> proxyViewFactory y = Proxy x"
    using assms(1) unfolding state_ok_def by (auto simp: addTask_def init_def split: if_splits)
  from 1 5 6 assms(1) p o show ?thesis unfolding state_ok_def by simp
qed

lemma init_template_stable:
  assumes "templates s a = Some t" "viewFactory t = None"
  shows "template_stable s (addTask (ChildrenTask d a cps) (init a f s))"
  using assms unfolding template_stable_def by (auto simp: addTask_def init_def)

lemma init_keeps [simp]: "keeps s (addTask tk (init a f s'))= keeps s s'"
  by (simp add: keeps_def addTask_def init_def)

lemma compileCallback_ok:
  assumes ok: "state_ok s" and np: "a \<notin> set (pendingCompiles (tasks s))"
    and ta: "templates s a = Some t" and vf: "viewFactory t = None"
  shows "state_ok (compileCallback e d a m pipes path vs s) \<and>
         keeps s (compileCallback e d a m pipes path vs s) \<and>
         template_stable s (compileCallback e d a m pipes path vs s)"
proof -
  let ?s1 = "record_call (CallParse m) s"
  have ok1: "state_ok ?s1" using ok by (simp add: state_ok_def record_call_def)
  have k1: "keeps s ?s1" by (simp add: keeps_def record_call_def)
  have t1: "template_stable s ?s1" by (simp add: template_stable_def record_call_def)
  have f1: "templates ?s1 = templates s" "tasks ?s1 = tasks s" "nextId ?s1 = nextId s"
    by (simp_all add: record_call_def)
  show ?thesis
  proof (cases "parse e m (template_text m) (drop 1 vs) pipes (type_name m)")
    case (Inl err)
    then have "compileCallback e d a m pipes path vs s = settle d (Rejected err) ?s1"
      by (simp add: compileCallback_def Let_def)
    with ok1 k1 t1 show ?thesis by simp
  next
    case (Inr ast)
    obtain r s2 where c: "compileComponent e m ast (nth_val vs 0) pipes path ?s1 = (r, s2)"
      by force
    from compileComponent_grows_ok [OF c] ok1
    have g: "grows ?s1 s2" and ok2: "state_ok s2" by simp_all
    have k2: "keeps s s2" using g k1 unfolding grows_def by (blast intro: keeps_trans)
    have t2: "template_stable s s2"
      using grows_template_stable [OF g ok1] t1 by (blast intro: template_stable_trans)
    show ?thesis
    proof (cases r)
      case (Inl err)
      with Inr c have "compileCallback e d a m pipes path vs s = settle d (Rejected err) s2"
        by (simp add: compileCallback_def Let_def)
      with ok2 k2 t2 show ?thesis by simp
    next
      case (Inr res)
      obtain f cps where res: "res = (f, cps)" by force
      with Inr c \<open>parse e m (template_text m) (drop 1 vs) pipes (type_name m) = Inr ast\<close>
      have eq: "compileCallback e d a m pipes path vs s
                  = addTask (ChildrenTask d a cps) (init a f s2)"
        by (simp add: compileCallback_def Let_def)
      have lt: "a < nextId s" using ok ta unfolding state_ok_def by blast
      have np2: "a \<notin> set (pendingCompiles (tasks s2))"
        using g np lt f1 unfolding grows_def by (metis not_le)
      have ta2: "templates s2 a = Some t"
        using g lt ta f1 unfolding grows_def by metis
      have "template_stable s2 (addTask (ChildrenTask d a cps) (init a f s2))"
        using init_template_stable [OF ta2 vf] .
      with t2 have "template_stable s (addTask (ChildrenTask d a cps) (init a f s2))"
        by (blast intro: template_stable_trans)
      with init_state_ok [OF ok2 np2] k2 eq show ?thesis by simp
    qed
  qed
qed

lemma runTask_ok:
  assumes ok: "state_ok s"
  shows "state_ok (runTask e i s) \<and> keeps s (runTask e i s) \<and> template_stable s (runTask e i s)"
proof (cases "length (tasks s) \<le> i")
  case True
  with ok show ?thesis by (simp add: runTask_def)
next
  case False
  then have i: "i < length (tasks s)" by simp
  note r = removeTask_state_ok [OF ok i]
  have rk: "keeps s (removeTask i s)" "template_stable s (removeTask i s)"
    using removeTask_style_like [OF i] by simp_all
  show ?thesis
  proof (cases "tasks s ! i")
    case (XhrTask p url)
    with i r rk ok show ?thesis by (simp add: runTask_def)
  next
    case (NormalizeTask p m)
    with i r rk ok show ?thesis by (simp add: runTask_def)
  next
    case (StylesFetchedTask out u res ps)
    show ?thesis
    proof (cases "all_settled (promises s) ps")
      case None
      with StylesFetchedTask i ok show ?thesis by (simp add: runTask_def)
    next
      case (Some v)
      show ?thesis
      proof (cases v)
        case (Inl err)
        with Some StylesFetchedTask i r rk show ?thesis by (simp add: runTask_def)
      next
        case (Inr txts)
        obtain nested s1 where
          n: "compileNested e (css_dependencies res) 0 txts (removeTask i s) = (nested, s1)"
          by force
        let ?s' = "addTask (StylesNestedTask out u res nested) s1"
        have "style_frame s1 ?s'" by (simp add: style_frame_def addTask_def)
        with compileNested_frame [OF n] have f: "style_frame (removeTask i s) ?s'"
          by (blast intro: style_frame_trans)
        have eq: "runTask e i s = ?s'"
          using n Inr Some StylesFetchedTask i by (simp add: runTask_def)
        have "grows (removeTask i s) ?s'" using f by (rule style_frame_grows)
        then have "keeps (removeTask i s) ?s'" "template_stable (removeTask i s) ?s'"
          using grows_template_stable r by (simp_all add: grows_def)
        with rk style_frame_state_ok [OF f r] eq show ?thesis
          by (auto intro: keeps_trans template_stable_trans)
      qed
    qed
  next
    case (StylesNestedTask out u res ps)
    with i r rk ok show ?thesis
      by (simp add: runTask_def split: option.splits sum.splits)
  next
    case (CompileTask d a m pipes path ps)
    note gone = removeTask_compile_gone [OF ok i CompileTask]
    from gone(2) obtain t where t: "templates s a = Some t" "viewFactory t = None" by blast
    show ?thesis
    proof (cases "all_settled (promises s) ps")
      case None
      with CompileTask i ok show ?thesis by (simp add: runTask_def)
    next
      case (Some v)
      show ?thesis
      proof (cases v)
        case (Inl err)
        with Some CompileTask i r rk show ?thesis by (simp add: runTask_def)
      next
        case (Inr vs)
        have eq: "runTask e i s = compileCallback e d a m pipes path vs (removeTask i s)"
          using Inr Some CompileTask i by (simp add: runTask_def)
        have "templates (removeTask i s) a = Some t" using t by simp
        from compileCallback_ok [OF r gone(1) this t(2)] rk eq show ?thesis
          by (auto intro: keeps_trans template_stable_trans)
      qed
    qed
  next
    case (ChildrenTask d a ps)
    with i r rk ok show ?thesis
      by (simp add: runTask_def split: option.splits sum.splits)
  next
    case (HostTask out d cf)
    with i r rk ok show ?thesis
      by (simp add: runTask_def split: option.splits promise_state.splits)
  qed
qed

lemma compileCallback_keeps: "keeps s (compileCallback e d a m pipes path vs s)"
proof -
  let ?s1 = "record_call (CallParse m) s"
  have k1: "keeps s ?s1" by (simp add: keeps_def record_call_def)
  show ?thesis
  proof (cases "parse e m (template_text m) (drop 1 vs) pipes (type_name m)")
    case (Inl err)
    then have "compileCallback e d a m pipes path vs s = settle d (Rejected err) ?s1"
      by (simp add: compileCallback_def Let_def)
    with k1 show ?thesis by simp
  next
    case (Inr ast)
    obtain r s2 where c: "compileComponent e m ast (nth_val vs 0) pipes path ?s1 = (r, s2)"
      by force
    from compileComponent_grows_ok [OF c] have "keeps ?s1 s2" by (simp add: grows_def)
    with k1 have k2: "keeps s s2" by (blast intro: keeps_trans)
    from Inr c have "compileCallback e d a m pipes path vs s
        = (case r of Inl err \<Rightarrow> settle d (Rejected err) s2
           | Inr (f, cps) \<Rightarrow> addTask (ChildrenTask d a cps) (init a f s2))"
      by (simp add: compileCallback_def Let_def split: sum.splits)
    with k2 show ?thesis by (simp split: sum.splits prod.splits)
  qed
qed

lemma runTask_keeps: "keeps s (runTask e i s)"
proof (cases "length (tasks s) \<le> i")
  case True
  then show ?thesis by (simp add: runTask_def)
next
  case False
  then have i: "i < length (tasks s)" by simp
  have rk: "keeps s (removeTask i s)" using removeTask_style_like [OF i] by simp
  show ?thesis
  proof (cases "tasks s ! i")
    case (XhrTask p url)
    with i rk show ?thesis by (simp add: runTask_def)
  next
    case (NormalizeTask p m)
    with i rk show ?thesis by (simp add: runTask_def)
  next
    case (StylesFetchedTask out u res ps)
    show ?thesis
    proof (cases "all_settled (promises s) ps")
      case None
      with StylesFetchedTask i show ?thesis by (simp add: runTask_def)
    next
      case (Some v)
      show ?thesis
      proof (cases v)
        case (Inl err)
        with Some StylesFetchedTask i rk show ?thesis by (simp add: runTask_def)
      next
        case (Inr txts)
        obtain nested s1 where
          n: "compileNested e (css_dependencies res) 0 txts (removeTask i s) = (nested, s1)"
          by force
        let ?s' = "addTask (StylesNestedTask out u res nested) s1"
        have "style_frame s1 ?s'" by (simp add: style_frame_def addTask_def)
        with compileNested_frame [OF n] have f: "style_frame (removeTask i s) ?s'"
          by (blast intro: style_frame_trans)
        have eq: "runTask e i s = ?s'"
          using n Inr Some StylesFetchedTask i by (simp add: runTask_def)
        have "keeps (removeTask i s) ?s'" using style_frame_grows [OF f] by (simp add: grows_def)
        with rk eq show ?thesis by (auto intro: keeps_trans)
      qed
    qed
  next
    case (StylesNestedTask out u res ps)
    with i rk show ?thesis
      by (simp add: runTask_def split: option.splits sum.splits)
  next
    case (CompileTask d a m pipes path ps)
    show ?thesis
    proof (cases "all_settled (promises s) ps")
      case None
      with CompileTask i show ?thesis by (simp add: runTask_def)
    next
      case (Some v)
      show ?thesis
      proof (cases v)
        case (Inl err)
        with Some CompileTask i rk show ?thesis by (simp add: runTask_def)
      next
        case (Inr vs)
        have eq: "runTask e i s = compileCallback e d a m pipes path vs (removeTask i s)"
          using Inr Some CompileTask i by (simp add: runTask_def)
        with rk compileCallback_keeps [of "removeTask i s" e d a m pipes path vs]
        show ?thesis by (auto intro: keeps_trans)
      qed
    qed
  next
    case (ChildrenTask d a ps)
    with i rk show ?thesis
      by (simp add: runTask_def split: option.splits sum.splits)
  next
    case (HostTask out d cf)
    with i rk show ?thesis
      by (simp add: runTask_def split: option.splits promise_state.splits)
  qed
qed

subsection \<open>Runs\<close>

lemma resolveComponent_grows_ok:
  assumes "resolveComponent e c s = (r, s')"
  shows "grows s s' \<and> (state_ok s \<longrightarrow> state_ok s')"
proof (cases c)
  case (Inr str)
  with assms have "s' = snd (newPromise (Rejected (CannotResolve str)) s)"
    by (auto simp: resolveComponent_def split: prod.splits)
  then have "style_frame s s'" by (simp add: newPromise_def style_frame_def)
  then show ?thesis by (blast intro: style_frame_grows style_frame_state_ok)
next
  case (Inl t)
  obtain r1 s1 where l: "loadAndCompileHostComponent e t s = (r1, s1)" by force
  with assms Inl have "s' = s1" by (auto simp: resolveComponent_def split: sum.splits)
  with loadAndCompileHostComponent_grows [OF l] loadAndCompileHostComponent_state_ok [OF l]
  show ?thesis by blast
qed

lemma clearCache_ok:
  "state_ok s \<Longrightarrow> state_ok (clearCache s)" "template_stable s (clearCache s)"
  by (simp_all add: state_ok_def clearCache_def template_stable_def)

lemma perform_state_ok: "state_ok s \<Longrightarrow> state_ok (perform e a s)"
proof (cases a)
  case (ResolveComponent c)
  assume "state_ok s"
  with resolveComponent_grows_ok [of e c s] ResolveComponent show ?thesis
    by (simp add: perform_def) (metis prod.collapse)
next
  case ClearCache
  assume "state_ok s"
  with ClearCache show ?thesis by (simp add: perform_def clearCache_ok)
next
  case (RunTask i)
  assume "state_ok s"
  with RunTask runTask_ok [of s e i] show ?thesis by (simp add: perform_def)
qed

lemma perform_template_stable: "state_ok s \<Longrightarrow> template_stable s (perform e a s)"
proof (cases a)
  case (ResolveComponent c)
  assume ok: "state_ok s"
  have "grows s (snd (resolveComponent e c s))"
    using resolveComponent_grows_ok [of e c s] by (metis prod.collapse)
  with ok ResolveComponent show ?thesis
    by (simp add: perform_def grows_template_stable)
next
  case ClearCache
  then show ?thesis by (simp add: perform_def clearCache_ok)
next
  case (RunTask i)
  assume "state_ok s"
  with RunTask runTask_ok [of s e i] show ?thesis by (simp add: perform_def)
qed

lemma perform_keeps: "a \<noteq> ClearCache \<Longrightarrow> keeps s (perform e a s)"
proof (cases a)
  case (ResolveComponent c)
  have "grows s (snd (resolveComponent e c s))"
    using resolveComponent_grows_ok [of e c s] by (metis prod.collapse)
  with ResolveComponent show ?thesis by (simp add: perform_def grows_def)
next
  case ClearCache
  assume "a \<noteq> ClearCache"
  with ClearCache show ?thesis by simp
next
  case (RunTask i)
  with runTask_keeps [of s e i] show ?thesis by (simp add: perform_def)
qed

lemma performAll_state_ok: "state_ok s \<Longrightarrow> state_ok (performAll e as s)"
  by (induction as arbitrary: s) (simp_all add: perform_state_ok)

lemma performAll_template_stable: "state_ok s \<Longrightarrow> template_stable s (performAll e as s)"
proof (induction as arbitrary: s)
  case Nil
  then show ?case by simp
next
  case (Cons a as)
  from Cons.prems have "state_ok (perform e a s)" by (rule perform_state_ok)
  from Cons.IH [OF this] perform_template_stable [OF Cons.prems, of e a]
  show ?case by (auto intro: template_stable_trans)
qed

lemma performAll_keeps: "ClearCache \<notin> set as \<Longrightarrow> keeps s (performAll e as s)"
proof (induction as arbitrary: s)
  case Nil
  then show ?case by simp
next
  case (Cons a as)
  then have "a \<noteq> ClearCache" "ClearCache \<notin> set as" by auto
  from perform_keeps [OF this(1), of s e] Cons.IH [OF this(2), of "perform e a s"]
  show ?case by (auto intro: keeps_trans)
qed

lemma state_ok_initial: "state_ok initial"
  by (simp add: state_ok_def initial_def)

subsection \<open>The calls made by one compile operation\<close>

lemma loadStylesheetDep_trace:
  "loadStylesheetDep e dep s = (p, s') \<Longrightarrow> \<exists>urls. trace s' = trace s @ map CallXhrGet urls"
proof (cases "styleCache s (moduleUrl dep @ (if isShimmed dep then ''.shim'' else ''''))")
  case None
  assume "loadStylesheetDep e dep s = (p, s')"
  with None have "trace s' = trace s @ map CallXhrGet [moduleUrl dep]"
    by (auto simp: loadStylesheetDep_def Let_def newPromise_def addTask_def record_call_def)
  then show ?thesis by blast
next
  case (Some q)
  assume "loadStylesheetDep e dep s = (p, s')"
  with Some have "trace s' = trace s @ map CallXhrGet []"
    by (auto simp: loadStylesheetDep_def Let_def)
  then show ?thesis by blast
qed

lemma loadStylesheetDeps_trace:
  "loadStylesheetDeps e deps s = (ps, s') \<Longrightarrow> \<exists>urls. trace s' = trace s @ map CallXhrGet urls"
proof (induction deps arbitrary: s ps s')
  case Nil
  then have "trace s' = trace s @ map CallXhrGet []" by simp
  then show ?case by blast
next
  case (Cons dep deps)
  obtain p s1 where a: "loadStylesheetDep e dep s = (p, s1)" by force
  obtain qs s2 where b: "loadStylesheetDeps e deps s1 = (qs, s2)" by force
  from Cons.prems a b have eq: "s' = s2" by simp
  from loadStylesheetDep_trace [OF a] obtain u1 where
    1: "trace s1 = trace s @ map CallXhrGet u1" by blast
  from Cons.IH [OF b] obtain u2 where 2: "trace s2 = trace s1 @ map CallXhrGet u2" by blast
  from 1 2 eq have "trace s' = trace s @ map CallXhrGet (u1 @ u2)" by simp
  then show ?case by blast
qed

lemma compileComponentStyles_trace:
  assumes "compileComponentStyles e m s = (p, s')"
  shows "\<exists>urls. trace s' = trace s @ CallStyleCompileComponent m # map CallXhrGet urls"
proof -
  let ?s1 = "record_call (CallStyleCompileComponent m) s"
  obtain ps s2 where a: "loadStylesheetDeps e (css_dependencies (styleCompileComponent e m)) ?s1
      = (ps, s2)" by force
  from assms a have "trace s' = trace s2"
    by (auto simp: compileComponentStyles_def resolveStylesCompileResult_def Let_def
          newPromise_def addTask_def)
  moreover from loadStylesheetDeps_trace [OF a] obtain urls where
    "trace s2 = trace ?s1 @ map CallXhrGet urls" by blast
  ultimately have "trace s' = trace s @ CallStyleCompileComponent m # map CallXhrGet urls"
    by (simp add: record_call_def)
  then show ?thesis by blast
qed

lemma normalizeDirectives_trace:
  "normalizeDirectives e ds s = (ps, s') \<Longrightarrow> trace s' = trace s @ map CallNormalizeDirective ds"
proof (induction ds arbitrary: s ps s')
  case Nil
  then show ?case by simp
next
  case (Cons d ds)
  let ?s2 = "addTask (NormalizeTask (nextId s) d)
               (snd (newPromise Pending (record_call (CallNormalizeDirective d) s)))"
  obtain qs s3 where b: "normalizeDirectives e ds ?s2 = (qs, s3)" by force
  from Cons.prems b have "s' = s3" by (simp add: newPromise_def Let_def record_call_def)
  with Cons.IH [OF b] show ?case
    by (simp add: addTask_def newPromise_def record_call_def)
qed

lemma loadAndCompileComponent_fresh_trace:
  assumes "compiledTemplateCache s k = None"
    and "loadAndCompileComponent e k m vd p path s = (a, s')"
  shows "\<exists>urls. trace s' = trace s @ CallStyleCompileComponent m # map CallXhrGet urls
           @ map CallNormalizeDirective vd @ [TemplateCacheSet k a]"
proof -
  obtain stylesP s1 where a1: "compileComponentStyles e m s = (stylesP, s1)" by force
  obtain normPs s2 where a2: "normalizeDirectives e vd s1 = (normPs, s2)" by force
  from assms a1 a2 have "trace s' = trace s2 @ [TemplateCacheSet k a]"
    by (auto simp: loadAndCompileComponent_def newPromise_def newCompiledTemplate_def
          addTask_def record_call_def Let_def)
  moreover from compileComponentStyles_trace [OF a1] obtain urls where
    "trace s1 = trace s @ CallStyleCompileComponent m # map CallXhrGet urls" by blast
  moreover note normalizeDirectives_trace [OF a2]
  ultimately have "trace s' = trace s @ CallStyleCompileComponent m # map CallXhrGet urls
           @ map CallNormalizeDirective vd @ [TemplateCacheSet k a]" by simp
  then show ?thesis by blast
qed

lemma newCompileHostTemplate_undefined:
  "newCompileHostTemplate None m s = (Inl TypeError, s)"
  by (simp add: newCompileHostTemplate_def)

subsection \<open>The first and the later resolutions of a component\<close>




text \<open>The defining equations of the model, for evaluating concrete runs.\<close>

lemmas model_defs = resolveComponent_def loadAndCompileHostComponent_def example_env_def
  example_meta_def initial_def record_call_def Let_def assertComponent_def
  loadAndCompileComponent_def compileComponentStyles_def resolveStylesCompileResult_def
  newPromise_def addTask_def newCompiledTemplate_def newCompileHostTemplate_def
  loadStylesheetDep_def perform_def runTask_def removeTask_def settle_def settled_of_def
  compileCallback_def compileComponent_def compileDep_def init_def realize_def nth_val_def
  clearCache_def


subsection \<open>Keys on a compiling path stay cached\<close>

lemma style_frame_links_ok: "style_frame s s' \<Longrightarrow> links_ok s \<Longrightarrow> links_ok s'"
  by (simp add: style_frame_def links_ok_def)

lemma loadAndCompileComponent_links_ok:
  assumes l: "loadAndCompileComponent e k m vd p path s = (a, s')" and ok: "links_ok s"
    and pth: "\<forall>x\<in>set path. x = k \<or> compiledTemplateCache s x \<noteq> None"
  shows "links_ok s'"
proof (cases "compiledTemplateCache s k")
  case (Some b)
  with l ok show ?thesis by (auto simp: loadAndCompileComponent_def)
next
  case None
  from loadAndCompileComponent_fresh [OF None l] obtain s2 :: state and ins where
    f: "style_frame s s2"
      "templates s' = (templates s2)(a \<mapsto>
          \<lparr> viewFactory = None, proxyViewFactory = Proxy a, done_promise = nextId s2 \<rparr>)"
      "compiledTemplateCache s' = (compiledTemplateCache s2)(k \<mapsto> a)"
      "tasks s' = tasks s2 @ [CompileTask (nextId s2) a m p path ins]"
    by blast
  have ok2: "links_ok s2" using f(1) ok by (rule style_frame_links_ok)
  have c2: "compiledTemplateCache s2 = compiledTemplateCache s"
    using f(1) by (simp add: style_frame_def)
  have 1: "\<forall>x c. compiledTemplateCache s' x = Some c \<longrightarrow> templates s' c \<noteq> None"
    using ok2 f(2,3) unfolding links_ok_def by auto
  have 2: "\<forall>x \<in> set (compilePathKeys (tasks s')). compiledTemplateCache s' x \<noteq> None"
    using ok2 f(3,4) pth c2 unfolding links_ok_def by auto
  from 1 2 show ?thesis unfolding links_ok_def by blast
qed

lemma loadAndCompileHostComponent_links_ok:
  assumes "loadAndCompileHostComponent e c s = (r, s')" and ok: "links_ok s"
  shows "links_ok s'"
proof -
  let ?m = "getDirectiveMetadata e c"
  let ?s1 = "record_call (CallGetDirectiveMetadata c) s"
  have ok1: "links_ok ?s1" using ok by (simp add: links_ok_def record_call_def)
  show ?thesis
  proof (cases "hostCacheKeys ?s1 (type_runtime ?m)")
    case (Some k)
    with assms have "newCompileHostTemplate (compiledTemplateCache ?s1 k) ?m ?s1 = (r, s')"
      by (simp add: loadAndCompileHostComponent_def Let_def)
    from newCompileHostTemplate_frame [OF this] ok1 show ?thesis
      by (blast intro: style_frame_links_ok)
  next
    case None
    let ?k = "ObjectKey (nextId ?s1)"
    let ?s2 = "?s1\<lparr> hostCacheKeys := (hostCacheKeys ?s1)(type_runtime ?m \<mapsto> ?k),
                     nextId := Suc (nextId ?s1) \<rparr>"
    have ok2: "links_ok ?s2" using ok1 by (simp add: links_ok_def)
    show ?thesis
    proof (cases "isComponent ?m")
      case False
      with assms None have "s' = ?s2"
        by (simp add: loadAndCompileHostComponent_def Let_def assertComponent_def)
      with ok2 show ?thesis by simp
    next
      case True
      let ?hm = "createHostComponentMeta e (type_runtime ?m) (type_name ?m) (selector ?m)"
      obtain a s3 where l: "loadAndCompileComponent e ?k ?hm [?m] [] [] ?s2 = (a, s3)" by force
      from assms None True l have
        n: "newCompileHostTemplate (compiledTemplateCache s3 ?k) ?m s3 = (r, s')"
        by (simp add: loadAndCompileHostComponent_def Let_def assertComponent_def)
      have "links_ok s3"
        by (rule loadAndCompileComponent_links_ok [OF l ok2]) simp
      with newCompileHostTemplate_frame [OF n] show ?thesis
        by (blast intro: style_frame_links_ok)
    qed
  qed
qed

lemma compileDep_links_ok:
  assumes "compileDep e path dep s = (r, s')" and ok: "links_ok s"
    and pth: "\<forall>x\<in>set path. compiledTemplateCache s x \<noteq> None"
  shows "links_ok s'"
proof (cases dep)
  case (ViewFactoryDependency m)
  let ?c = "type_runtime m"
  let ?s2 = "record_call (CallGetViewPipesMetadata ?c) (record_call (CallGetViewDirectivesMetadata ?c) s)"
  obtain a s3 where l: "loadAndCompileComponent e (TypeKey ?c) m (getViewDirectivesMetadata e ?c)
      (getViewPipesMetadata e ?c) (path @ [TypeKey ?c]) ?s2 = (a, s3)" by force
  from assms ViewFactoryDependency l have "s' = s3"
    by (auto simp: compileDep_def Let_def split: option.splits)
  moreover have "links_ok ?s2"
    using ok by (simp add: links_ok_def record_call_def)
  moreover have "\<forall>x\<in>set (path @ [TypeKey ?c]). x = TypeKey ?c \<or> compiledTemplateCache ?s2 x \<noteq> None"
    using pth by (auto simp: record_call_def)
  ultimately show ?thesis using loadAndCompileComponent_links_ok [OF l]
    by simp
next
  case (ComponentFactoryDependency ci)
  obtain r1 s1 where l: "loadAndCompileHostComponent e (ident_runtime ci) s = (r1, s1)" by force
  from assms ComponentFactoryDependency l have "s' = s1"
    by (auto simp: compileDep_def split: sum.splits)
  with loadAndCompileHostComponent_links_ok [OF l ok] show ?thesis by simp
qed

lemma compileDeps_links_ok:
  "compileDeps e path deps s = (r, s') \<Longrightarrow> links_ok s
     \<Longrightarrow> \<forall>x\<in>set path. compiledTemplateCache s x \<noteq> None \<Longrightarrow> links_ok s'"
proof (induction deps arbitrary: s r s')
  case Nil
  then show ?case by simp
next
  case (Cons dep deps)
  obtain r1 s1 where a: "compileDep e path dep s = (r1, s1)" by force
  note o1 = compileDep_links_ok [OF a Cons.prems(2,3)]
  have "keeps s s1" using compileDep_grows [OF a] by (simp add: grows_def)
  with Cons.prems(3) have p1: "\<forall>x\<in>set path. compiledTemplateCache s1 x \<noteq> None"
    unfolding keeps_def by fastforce
  show ?case
  proof (cases r1)
    case (Inl err)
    with Cons.prems a have "s' = s1" by simp
    with o1 show ?thesis by simp
  next
    case (Inr res)
    obtain r2 s2 where b: "compileDeps e path deps s1 = (r2, s2)" by force
    from Cons.prems a b Inr have "s' = s2" by (auto split: sum.splits prod.splits)
    with Cons.IH [OF b o1 p1] show ?thesis by simp
  qed
qed

lemma compileCallback_links_ok:
  assumes ok: "links_ok s" and pth: "\<forall>x\<in>set path. compiledTemplateCache s x \<noteq> None"
  shows "links_ok (compileCallback e d a m pipes path vs s)"
proof -
  let ?s1 = "record_call (CallParse m) s"
  have ok1: "links_ok ?s1" using ok by (simp add: links_ok_def record_call_def)
  show ?thesis
  proof (cases "parse e m (template_text m) (drop 1 vs) pipes (type_name m)")
    case (Inl err)
    then have "compileCallback e d a m pipes path vs s = settle d (Rejected err) ?s1"
      by (simp add: compileCallback_def Let_def)
    with ok1 show ?thesis by (simp add: links_ok_def settle_def)
  next
    case (Inr ast)
    let ?s1' = "record_call (CallViewCompileComponent m) ?s1"
    obtain r2 s2 where b: "compileDeps e path
      (dependencies (viewCompileComponent e m ast (nth_val vs 0) pipes)) ?s1' = (r2, s2)" by force
    have "links_ok ?s1'" using ok by (simp add: links_ok_def record_call_def)
    moreover have "\<forall>x\<in>set path. compiledTemplateCache ?s1' x \<noteq> None"
      using pth by (simp add: record_call_def)
    ultimately have ok2: "links_ok s2" using compileDeps_links_ok [OF b] by simp
    from Inr b have "compileCallback e d a m pipes path vs s
        = (case r2 of Inl err \<Rightarrow> settle d (Rejected err) s2
           | Inr (cps, phs) \<Rightarrow> addTask (ChildrenTask d a cps)
               (init a (ViewFactoryFn (realize e (type_name m @ ''.template.js''))
                     (statements (viewCompileComponent e m ast (nth_val vs 0) pipes))
                     (viewFactoryVar (viewCompileComponent e m ast (nth_val vs 0) pipes)) phs) s2))"
      by (simp add: compileCallback_def compileComponent_def Let_def split: sum.splits prod.splits)
    with ok2 show ?thesis
      by (auto simp: links_ok_def settle_def addTask_def init_def split: sum.splits prod.splits)
  qed
qed

lemma task_path_subset:
  assumes "i < length ts" "ts ! i = CompileTask d a m pipes path ins"
  shows "set path \<subseteq> set (compilePathKeys ts)"
proof -
  have "ts = take i ts @ [ts ! i] @ drop (Suc i) ts"
    using assms(1) by (simp add: id_take_nth_drop)
  then have "compilePathKeys ts = compilePathKeys (take i ts @ [ts ! i] @ drop (Suc i) ts)"
    by simp
  with assms(2) have "compilePathKeys ts
      = compilePathKeys (take i ts) @ path @ compilePathKeys (drop (Suc i) ts)"
    by simp
  then show ?thesis by auto
qed

lemma removeTask_links_ok:
  assumes "links_ok s" "i < length (tasks s)"
  shows "links_ok (removeTask i s)"
proof -
  have "tasks s = take i (tasks s) @ [tasks s ! i] @ drop (Suc i) (tasks s)"
    using assms(2) by (simp add: id_take_nth_drop)
  then have "compilePathKeys (tasks s)
      = compilePathKeys (take i (tasks s) @ [tasks s ! i] @ drop (Suc i) (tasks s))"
    by simp
  then have "set (compilePathKeys (tasks (removeTask i s))) \<subseteq> set (compilePathKeys (tasks s))"
    by auto
  with assms(1) show ?thesis unfolding links_ok_def by auto
qed

lemma settle_links_ok [simp]: "links_ok (settle p st s) = links_ok s"
  by (simp add: links_ok_def)

lemma runTask_links_ok:
  assumes ok: "links_ok s"
  shows "links_ok (runTask e i s)"
proof (cases "length (tasks s) \<le> i")
  case True
  with ok show ?thesis by (simp add: runTask_def)
next
  case False
  then have i: "i < length (tasks s)" by simp
  note r = removeTask_links_ok [OF ok i]
  show ?thesis
  proof (cases "tasks s ! i")
    case (XhrTask p url)
    with i r show ?thesis by (simp add: runTask_def)
  next
    case (NormalizeTask p m)
    with i r show ?thesis by (simp add: runTask_def)
  next
    case (StylesFetchedTask out u res ps)
    show ?thesis
    proof (cases "all_settled (promises s) ps")
      case None
      with StylesFetchedTask i ok show ?thesis by (simp add: runTask_def)
    next
      case (Some v)
      show ?thesis
      proof (cases v)
        case (Inl err)
        with Some StylesFetchedTask i r show ?thesis by (simp add: runTask_def)
      next
        case (Inr txts)
        obtain nested s1 where
          n: "compileNested e (css_dependencies res) 0 txts (removeTask i s) = (nested, s1)"
          by force
        let ?s' = "addTask (StylesNestedTask out u res nested) s1"
        have "style_frame s1 ?s'" by (simp add: style_frame_def addTask_def)
        with compileNested_frame [OF n] have f: "style_frame (removeTask i s) ?s'"
          by (blast intro: style_frame_trans)
        have eq: "runTask e i s = ?s'"
          using n Inr Some StylesFetchedTask i by (simp add: runTask_def)
        with style_frame_links_ok [OF f r] show ?thesis by simp
      qed
    qed
  next
    case (StylesNestedTask out u res ps)
    with i r ok show ?thesis
      by (simp add: runTask_def split: option.splits sum.splits)
  next
    case (CompileTask d a m pipes path ps)
    have "\<forall>x\<in>set path. compiledTemplateCache s x \<noteq> None"
      using task_path_subset [OF i CompileTask] ok unfolding links_ok_def by blast
    then have pth: "\<forall>x\<in>set path. compiledTemplateCache (removeTask i s) x \<noteq> None" by simp
    show ?thesis
    proof (cases "all_settled (promises s) ps")
      case None
      with CompileTask i ok show ?thesis by (simp add: runTask_def)
    next
      case (Some v)
      show ?thesis
      proof (cases v)
        case (Inl err)
        with Some CompileTask i r show ?thesis by (simp add: runTask_def)
      next
        case (Inr vs)
        have eq: "runTask e i s = compileCallback e d a m pipes path vs (removeTask i s)"
          using Inr Some CompileTask i by (simp add: runTask_def)
        with compileCallback_links_ok [OF r pth] show ?thesis by simp
      qed
    qed
  next
    case (ChildrenTask d a ps)
    with i r ok show ?thesis
      by (simp add: runTask_def split: option.splits sum.splits)
  next
    case (HostTask out d cf)
    with i r ok show ?thesis
      by (simp add: runTask_def split: option.splits promise_state.splits)
  qed
qed

lemma perform_links_ok: "a \<noteq> ClearCache \<Longrightarrow> links_ok s \<Longrightarrow> links_ok (perform e a s)"
proof (cases a)
  case (ResolveComponent c)
  assume ok: "links_ok s"
  show ?thesis
  proof (cases c)
    case (Inr str)
    with ok ResolveComponent show ?thesis
      by (simp add: perform_def resolveComponent_def newPromise_def links_ok_def)
  next
    case (Inl t)
    obtain r1 s1 where l: "loadAndCompileHostComponent e t s = (r1, s1)" by force
    with Inl ResolveComponent have "perform e a s = s1"
      by (auto simp: perform_def resolveComponent_def split: sum.splits)
    with loadAndCompileHostComponent_links_ok [OF l ok] show ?thesis by simp
  qed
next
  case ClearCache
  assume "a \<noteq> ClearCache"
  with ClearCache show ?thesis by simp
next
  case (RunTask i)
  assume "links_ok s"
  with RunTask runTask_links_ok [of s e i] show ?thesis by (simp add: perform_def)
qed

lemma performAll_links_ok:
  "ClearCache \<notin> set as \<Longrightarrow> links_ok s \<Longrightarrow> links_ok (performAll e as s)"
proof (induction as arbitrary: s)
  case Nil
  then show ?case by simp
next
  case (Cons a as)
  then have "a \<noteq> ClearCache" "ClearCache \<notin> set as" by auto
  from Cons.IH [OF this(2) perform_links_ok [OF this(1) Cons.prems(2)]]
  show ?case by simp
qed

lemma links_ok_initial: "links_ok initial"
  by (simp add: links_ok_def initial_def)

subsection \<open>Dependencies on the compiling path\<close>

lemma compileDep_back_reference:
  assumes "back_reference path dep"
    and "\<forall>k\<in>set path. compiledTemplateCache s k \<noteq> None"
    and "\<forall>k c. compiledTemplateCache s k = Some c \<longrightarrow> templates s c \<noteq> None"
  shows "\<exists>ph tr. compileDep e path dep s = (Inr ([], ph), s\<lparr> trace := tr \<rparr>) \<and>
           cached_placeholder s dep = Some ph"
proof (cases dep)
  case (ComponentFactoryDependency ci)
  with assms(1) show ?thesis by (simp add: back_reference_def)
next
  case (ViewFactoryDependency m)
  with assms(1) have inp: "TypeKey (type_runtime m) \<in> set path"
    by (simp add: back_reference_def)
  with assms(2) obtain c where c: "compiledTemplateCache s (TypeKey (type_runtime m)) = Some c"
    by blast
  with assms(3) obtain t where t: "templates s c = Some t" by blast
  let ?ph = "ViewFactoryPlaceholder (proxyViewFactory t) (''viewFactory_'' @ type_name m)"
  let ?tr = "trace s @ [CallGetViewDirectivesMetadata (type_runtime m),
                        CallGetViewPipesMetadata (type_runtime m)]"
  have "compileDep e path dep s = (Inr ([], ?ph), s\<lparr> trace := ?tr \<rparr>)"
    using ViewFactoryDependency inp c t
    by (simp add: compileDep_def Let_def record_call_def loadAndCompileComponent_def)
  moreover have "cached_placeholder s dep = Some ?ph"
    using ViewFactoryDependency c t by (simp add: cached_placeholder_def)
  ultimately show ?thesis by blast
qed

lemma cached_placeholder_cong:
  assumes "compiledTemplateCache s' = compiledTemplateCache s" "templates s' = templates s"
  shows "cached_placeholder s' = cached_placeholder s"
proof (rule ext)
  fix dep
  show "cached_placeholder s' dep = cached_placeholder s dep"
    by (cases dep) (simp_all add: cached_placeholder_def assms split: option.splits)
qed

lemma cached_placeholder_trace [simp]:
  "cached_placeholder (s\<lparr> trace := tr \<rparr>) = cached_placeholder s"
  by (rule cached_placeholder_cong) simp_all

lemma compileDeps_back_references:
  assumes "list_all (back_reference path) deps"
    and "\<forall>k\<in>set path. compiledTemplateCache s k \<noteq> None"
    and "\<forall>k c. compiledTemplateCache s k = Some c \<longrightarrow> templates s c \<noteq> None"
  shows "\<exists>phs tr. compileDeps e path deps s = (Inr ([], phs), s\<lparr> trace := tr \<rparr>) \<and>
           map (cached_placeholder s) deps = map Some phs"
  using assms
proof (induction deps arbitrary: s)
  case Nil
  have "compileDeps e path [] s = (Inr ([], []), s\<lparr> trace := trace s \<rparr>)" by simp
  then show ?case by (metis list.simps(8))
next
  case (Cons dep deps)
  from Cons.prems(1) have b: "back_reference path dep" "list_all (back_reference path) deps"
    by simp_all
  from compileDep_back_reference [OF b(1) Cons.prems(2,3)] obtain ph tr where
    1: "compileDep e path dep s = (Inr ([], ph), s\<lparr> trace := tr \<rparr>)"
       "cached_placeholder s dep = Some ph" by blast
  let ?s1 = "s\<lparr> trace := tr \<rparr>"
  have p1: "\<forall>k\<in>set path. compiledTemplateCache ?s1 k \<noteq> None" using Cons.prems(2) by simp
  have c1: "\<forall>k c. compiledTemplateCache ?s1 k = Some c \<longrightarrow> templates ?s1 c \<noteq> None"
    using Cons.prems(3) by simp
  from Cons.IH [OF b(2) p1 c1] obtain phs tr2 where
    2: "compileDeps e path deps ?s1 = (Inr ([], phs), ?s1\<lparr> trace := tr2 \<rparr>)"
       "map (cached_placeholder ?s1) deps = map Some phs" by blast
  have "compileDeps e path (dep # deps) s = (Inr ([], ph # phs), s\<lparr> trace := tr2 \<rparr>)"
    using 1(1) 2(1) by simp
  moreover have "map (cached_placeholder s) (dep # deps) = map Some (ph # phs)"
    using 1(2) 2(2) by simp
  ultimately show ?case by blast
qed

subsection \<open>Stylesheet fetches and stuck states\<close>

lemma loadStylesheetDep_memoized:
  assumes "loadStylesheetDep e dep s = (p, s1)"
    and "moduleUrl dep' = moduleUrl dep" "isShimmed dep' = isShimmed dep"
  shows "loadStylesheetDep e dep' s1 = (p, s1)"
  using assms
  by (auto simp: loadStylesheetDep_def Let_def newPromise_def addTask_def record_call_def
        split: option.splits)

lemma performAll_append: "performAll e (as @ bs) s = performAll e bs (performAll e as s)"
  by (induction as arbitrary: s) simp_all

lemma waiting_for_each_other:
  assumes ts: "tasks s = [HostTask 6 3 5, ChildrenTask 3 4 [8], ChildrenTask 8 9 [11, 14],
                  ChildrenTask 11 12 [14], ChildrenTask 14 15 [11]]"
    and ps: "promises s 3 = Some Pending" "promises s 8 = Some Pending"
      "promises s 11 = Some Pending" "promises s 14 = Some Pending"
  shows "runTask e i s = s"
proof -
  consider "i = 0" | "i = 1" | "i = 2" | "i = 3" | "i = 4" | "5 \<le> i" by linarith
  then show ?thesis
  proof cases
    case 1
    with ts ps show ?thesis by (simp add: runTask_def)
  next
    case 2
    with ts ps show ?thesis by (simp add: runTask_def)
  next
    case 3
    with ts ps show ?thesis by (simp add: runTask_def)
  next
    case 4
    with ts ps show ?thesis by (simp add: runTask_def)
  next
    case 5
    with ts ps show ?thesis by (simp add: runTask_def)
  next
    case 6
    with ts show ?thesis by (simp add: runTask_def)
  qed
qed

lemma waiting_forever:
  assumes "\<And>i. runTask e i s = s"
  shows "performAll e (map RunTask steps) s = s"
  using assms by (induction steps) (simp_all add: perform_def)



subsection \<open>Invocations of the view compiler\<close>

text \<open>
  Only \<^verbatim>\<open>_compileComponent\<close> invokes the view compiler, once per call, and only the
  compile step of a template calls \<^verbatim>\<open>_compileComponent\<close>. A template has at most one
  compile step in a run, because its reaction is registered once, when the template is
  created, and is removed when it runs.
\<close>

lemma view_calls_simps [simp]:
  "view_calls [] = 0"
  "view_calls (tr @ tr') = view_calls tr + view_calls tr'"
  "view_calls (ev # tr) = (if is_view_call ev then 1 else 0) + view_calls tr"
  "view_calls (map CallXhrGet urls) = 0"
  "view_calls (map CallNormalizeDirective ms) = 0"
  by (simp_all add: view_calls_def filter_empty_conv)











lemma settle_trace [simp]: "trace (settle p st s) = trace s"
  by (simp add: settle_def)

lemma removeTask_trace [simp]: "trace (removeTask i s) = trace s"
  by (simp add: removeTask_def)











section \<open>The claims\<close>

text \<open>
  Claim C7. Given a string, \<^verbatim>\<open>resolveComponent\<close> returns a new promise that is already
  rejected with the cannot-resolve error. Apart from that promise the state is unchanged:
  the three caches, the templates, the factories, the pending tasks and the record of
  calls to collaborators are as before, whatever the collaborators are.
\<close>

theorem resolveComponent_string_rejected:
  "resolveComponent e (Inr str) s =
     (Inr (nextId s),
      s\<lparr> promises := (promises s)(nextId s \<mapsto> Rejected (CannotResolve str)),
         nextId := Suc (nextId s) \<rparr>)"
  by (simp add: resolveComponent_def newPromise_def)

text \<open>
  Claim C1. A key that is present in the compiled-template cache stays bound to the same
  \<^verbatim>\<open>CompiledTemplate\<close> through every run of the compiler that does not clear the
  cache (further \<^verbatim>\<open>resolveComponent\<close> calls and callbacks in any order), and
  \<^verbatim>\<open>_loadAndCompileComponent\<close> called with such a key returns that instance and leaves the
  whole state, including the pending tasks and the calls made to collaborators, as it
  was: no second template is created for the key and no compilation work is started.
\<close>

theorem compiled_template_unique_per_key:
  assumes "compiledTemplateCache s k = Some ct" and "ClearCache \<notin> set acts"
  shows "compiledTemplateCache (performAll e acts s) k = Some ct \<and>
         loadAndCompileComponent e k m vd pipes path (performAll e acts s)
           = (ct, performAll e acts s)"
proof -
  from performAll_keeps [OF assms(2), of s e] assms(1)
  have "compiledTemplateCache (performAll e acts s) k = Some ct"
    unfolding keeps_def by blast
  then show ?thesis by (simp add: loadAndCompileComponent_cached)
qed

text \<open>The theorem at work on the example configuration, after resolving component 1.\<close>

theorem compiled_template_unique_per_key_witness:
  "compiledTemplateCache (snd (resolveComponent example_env (Inl 1) initial)) (ObjectKey 0) = Some 4 \<and>
   compiledTemplateCache
     (performAll example_env [RunTask 0, ResolveComponent (Inl 1)]
        (snd (resolveComponent example_env (Inl 1) initial))) (ObjectKey 0) = Some 4 \<and>
   fst (loadAndCompileComponent example_env (ObjectKey 0) (example_meta 1) [] [] []
     (performAll example_env [RunTask 0, ResolveComponent (Inl 1)]
        (snd (resolveComponent example_env (Inl 1) initial)))) = 4"
proof -
  have h1: "compiledTemplateCache (snd (resolveComponent example_env (Inl 1) initial))
              (ObjectKey 0) = Some 4"
    by code_simp
  have h2: "ClearCache \<notin> set [RunTask 0, ResolveComponent (Inl 1)]" by simp
  from compiled_template_unique_per_key [OF h1 h2, of example_env "example_meta 1" "[]" "[]" "[]"] h1
  show ?thesis by simp
qed

text \<open>
  For a class that is not a component, \<^verbatim>\<open>assertComponent\<close> throws inside
  \<^verbatim>\<open>resolveComponent\<close>: the call returns no promise at all, so in particular no rejected
  promise that carries the error. And the first \<^verbatim>\<open>resolveComponent\<close> call for such a
  class need not raise that error: in the third application the callback of component 1
  has met the directive 9 as a host-factory dependency and recorded a host cache key for
  it, so the first \<^verbatim>\<open>resolveComponent\<close> call for 9 skips the assertion and fails with a
  type error.
\<close>

theorem non_component_rejected_future_counterexample:
  "\<not> (\<exists>p. fst (resolveComponent example_env (Inl 9) initial) = Inr p \<and>
          promises (snd (resolveComponent example_env (Inl 9) initial)) p
            = Some (Rejected (NotAComponent ''Cmp''))) \<and>
   fst (resolveComponent host_dep_env (Inl 9)
          (performAll host_dep_env
             [ResolveComponent (Inl 1), RunTask 0, RunTask 0, RunTask 2, RunTask 0, RunTask 1,
              RunTask 3, RunTask 1] initial))
     = Inl TypeError"
proof -
  have "fst (resolveComponent example_env (Inl 9) initial) = Inl (NotAComponent ''Cmp'')"
    by (simp add: model_defs)
  moreover have "fst (resolveComponent host_dep_env (Inl 9)
          (performAll host_dep_env
             [ResolveComponent (Inl 1), RunTask 0, RunTask 0, RunTask 2, RunTask 0, RunTask 1,
              RunTask 3, RunTask 1] initial))
     = Inl TypeError"
    by (simp add: model_defs host_dep_env_def)
  ultimately show ?thesis by simp
qed

text \<open>
  Claim C3, as the code has it. A \<^verbatim>\<open>resolveComponent\<close> call for a class whose metadata is
  not a component, made while no host cache key is recorded for that class, throws the
  not-a-component error synchronously. Its only effects are the call to the metadata
  resolver, the entry in the host-cache-key table and the consumed object identity: no
  promise is created, no task is scheduled and the view compiler is not called.
\<close>

theorem non_component_throws:
  assumes "hostCacheKeys s (type_runtime (getDirectiveMetadata e c)) = None"
    and "\<not> isComponent (getDirectiveMetadata e c)"
  shows "resolveComponent e (Inl c) s =
           (Inl (NotAComponent (type_name (getDirectiveMetadata e c))),
            s\<lparr> trace := trace s @ [CallGetDirectiveMetadata c],
               hostCacheKeys := (hostCacheKeys s)(type_runtime (getDirectiveMetadata e c)
                                   \<mapsto> ObjectKey (nextId s)),
               nextId := Suc (nextId s) \<rparr>)"
  using assms
  by (simp add: resolveComponent_def loadAndCompileHostComponent_def Let_def record_call_def
        assertComponent_def)

text \<open>The directive 9 of the example configuration, resolved in the initial state.\<close>

theorem non_component_throws_witness:
  "hostCacheKeys initial (type_runtime (getDirectiveMetadata example_env 9)) = None \<and>
   \<not> isComponent (getDirectiveMetadata example_env 9) \<and>
   fst (resolveComponent example_env (Inl 9) initial) = Inl (NotAComponent ''Cmp'') \<and>
   tasks (snd (resolveComponent example_env (Inl 9) initial)) = [] \<and>
   trace (snd (resolveComponent example_env (Inl 9) initial)) = [CallGetDirectiveMetadata 9]"
proof -
  have h1: "hostCacheKeys initial (type_runtime (getDirectiveMetadata example_env 9)) = None"
    by (simp add: initial_def)
  have h2: "\<not> isComponent (getDirectiveMetadata example_env 9)"
    by (simp add: example_env_def example_meta_def)
  have n: "type_name (getDirectiveMetadata example_env 9) = ''Cmp''"
    by (simp add: example_env_def example_meta_def)
  from non_component_throws [OF h1 h2] h1 h2 n show ?thesis
    by (simp add: initial_def)
qed

text \<open>
  The calls made by \<^verbatim>\<open>_loadAndCompileComponent\<close> for a key that is not cached, in order:
  the style compiler, the stylesheet fetch and the directive normalizer are all called
  before the template is put into the cache.
\<close>

theorem cache_insert_before_async_work_counterexample:
  "trace (snd (loadAndCompileComponent example_env (TypeKey 2) (example_meta 2)
                 [example_meta 3] [] [] initial))
     = [CallStyleCompileComponent (example_meta 2), CallXhrGet ''a.css'',
        CallNormalizeDirective (example_meta 3), TemplateCacheSet (TypeKey 2) 4]"
  by code_simp

text \<open>
  Claim C4, as the code has it. For a key that is not cached, one call of
  \<^verbatim>\<open>_loadAndCompileComponent\<close> starts the style compilation, issues the fetches of the
  stylesheets it imports and starts the normalization of every view directive, and then,
  still in the same call, creates the empty \<^verbatim>\<open>CompiledTemplate\<close> and puts it into the
  cache. When the call returns, the template has no view factory yet, its completion
  promise is pending, and the callback that parses and compiles the template is the
  last pending task: it has not run.
\<close>

theorem template_cached_before_continuation:
  assumes "compiledTemplateCache s k = None"
  shows "\<exists>a d urls ins old s'.
           loadAndCompileComponent e k m vd pipes path s = (a, s') \<and>
           trace s' = trace s @ CallStyleCompileComponent m # map CallXhrGet urls
                        @ map CallNormalizeDirective vd @ [TemplateCacheSet k a] \<and>
           compiledTemplateCache s' k = Some a \<and>
           templates s' a = Some \<lparr> viewFactory = None, proxyViewFactory = Proxy a,
                                    done_promise = d \<rparr> \<and>
           promises s' d = Some Pending \<and>
           tasks s' = old @ [CompileTask d a m pipes path ins]"
proof -
  obtain a s' where l: "loadAndCompileComponent e k m vd pipes path s = (a, s')" by force
  from loadAndCompileComponent_fresh [OF assms l] obtain s2 :: state and ins where
    f: "a = Suc (nextId s2)"
      "templates s' = (templates s2)(a \<mapsto>
          \<lparr> viewFactory = None, proxyViewFactory = Proxy a, done_promise = nextId s2 \<rparr>)"
      "compiledTemplateCache s' = (compiledTemplateCache s2)(k \<mapsto> a)"
      "promises s' = (promises s2)(nextId s2 \<mapsto> Pending)"
      "tasks s' = tasks s2 @ [CompileTask (nextId s2) a m pipes path ins]"
    by blast
  from loadAndCompileComponent_fresh_trace [OF assms l] obtain urls where
    t: "trace s' = trace s @ CallStyleCompileComponent m # map CallXhrGet urls
          @ map CallNormalizeDirective vd @ [TemplateCacheSet k a]" by blast
  from l f t show ?thesis by auto
qed

text \<open>Component 2 of the example configuration, compiled in the initial state.\<close>

theorem template_cached_before_continuation_witness:
  "compiledTemplateCache initial (TypeKey 2) = None \<and>
   (\<exists>a d urls ins old s'.
      loadAndCompileComponent example_env (TypeKey 2) (example_meta 2) [example_meta 3] [] []
        initial = (a, s') \<and>
      trace s' = trace initial @ CallStyleCompileComponent (example_meta 2) # map CallXhrGet urls
                   @ map CallNormalizeDirective [example_meta 3] @ [TemplateCacheSet (TypeKey 2) a] \<and>
      compiledTemplateCache s' (TypeKey 2) = Some a \<and>
      templates s' a = Some \<lparr> viewFactory = None, proxyViewFactory = Proxy a,
                               done_promise = d \<rparr> \<and>
      promises s' d = Some Pending \<and>
      tasks s' = old @ [CompileTask d a (example_meta 2) [] [] ins])"
proof -
  have h: "compiledTemplateCache initial (TypeKey 2) = None" by (simp add: initial_def)
  from template_cached_before_continuation [OF h] h show ?thesis by blast
qed

text \<open>
  Claim C6 fails on the code. The key of the style cache is the module url followed by
  \<^verbatim>\<open>.shim\<close> when the import is shimmed, so the shimmed import of \<^verbatim>\<open>a.css\<close> and the
  unshimmed import of \<^verbatim>\<open>a.css.shim\<close> share a key: loaded one after the other, both get
  the same promise and the transport is asked for \<^verbatim>\<open>a.css\<close> only. (Two imports with
  the same url and the same flag do share one fetch, see \<open>loadStylesheetDep_memoized\<close>.)
\<close>

theorem style_cache_key_collision:
  "fst (loadStylesheetDeps e
          [\<lparr> moduleUrl = ''a.css'', isShimmed = True \<rparr>,
           \<lparr> moduleUrl = ''a.css.shim'', isShimmed = False \<rparr>] initial) = [0, 0] \<and>
   trace (snd (loadStylesheetDeps e
          [\<lparr> moduleUrl = ''a.css'', isShimmed = True \<rparr>,
           \<lparr> moduleUrl = ''a.css.shim'', isShimmed = False \<rparr>] initial)) = [CallXhrGet ''a.css'']"
  by (simp add: loadStylesheetDep_def Let_def newPromise_def addTask_def record_call_def
        initial_def)

text \<open>
  Claim C10. In a state reached by any run of the compiler, let a class whose metadata is
  not a component be resolved for the first time: the call throws the not-a-component
  error, after it has recorded a host cache key for the class. Whatever happens next
  without clearing the cache, resolving the same class again finds that key, skips the
  assertion, reads no template from the cache and fails with a type error.
\<close>

theorem non_component_retry_fails_on_missing_template:
  assumes "hostCacheKeys (performAll e before initial)
             (type_runtime (getDirectiveMetadata e c)) = None"
    and "\<not> isComponent (getDirectiveMetadata e c)"
    and "ClearCache \<notin> set later"
  shows "fst (resolveComponent e (Inl c) (performAll e before initial))
           = Inl (NotAComponent (type_name (getDirectiveMetadata e c))) \<and>
         fst (resolveComponent e (Inl c)
               (performAll e later
                  (snd (resolveComponent e (Inl c) (performAll e before initial)))))
           = Inl TypeError"
proof -
  let ?s = "performAll e before initial"
  let ?m = "getDirectiveMetadata e c"
  let ?s1 = "?s\<lparr> trace := trace ?s @ [CallGetDirectiveMetadata c],
               hostCacheKeys := (hostCacheKeys ?s)(type_runtime ?m \<mapsto> ObjectKey (nextId ?s)),
               nextId := Suc (nextId ?s) \<rparr>"
  let ?s2 = "performAll e later ?s1"
  have ok: "state_ok ?s" using state_ok_initial by (rule performAll_state_ok)
  have first: "resolveComponent e (Inl c) ?s = (Inl (NotAComponent (type_name ?m)), ?s1)"
    using assms(1,2)
    by (simp add: resolveComponent_def loadAndCompileHostComponent_def Let_def record_call_def
          assertComponent_def)
  have absent: "compiledTemplateCache ?s1 (ObjectKey (nextId ?s)) = None"
  proof (cases "compiledTemplateCache ?s (ObjectKey (nextId ?s))")
    case None
    then show ?thesis by simp
  next
    case (Some a)
    with ok have "nextId ?s < nextId ?s" unfolding state_ok_def by blast
    then show ?thesis by simp
  qed
  have k: "keeps ?s1 ?s2" using assms(3) by (rule performAll_keeps)
  have hk: "hostCacheKeys ?s2 (type_runtime ?m) = Some (ObjectKey (nextId ?s))"
    using k unfolding keeps_def by simp
  have "nextId ?s < nextId ?s1" by simp
  with k absent have ab2: "compiledTemplateCache ?s2 (ObjectKey (nextId ?s)) = None"
    unfolding keeps_def by blast
  have "resolveComponent e (Inl c) ?s2
          = (Inl TypeError, record_call (CallGetDirectiveMetadata c) ?s2)"
    using hk ab2
    by (simp add: resolveComponent_def loadAndCompileHostComponent_def Let_def record_call_def
          newCompileHostTemplate_undefined)
  with first show ?thesis by simp
qed

text \<open>The directive 9 of the example configuration, resolved twice.\<close>

theorem non_component_retry_fails_on_missing_template_witness:
  "hostCacheKeys (performAll example_env [ResolveComponent (Inl 1)] initial)
     (type_runtime (getDirectiveMetadata example_env 9)) = None \<and>
   \<not> isComponent (getDirectiveMetadata example_env 9) \<and>
   ClearCache \<notin> set [RunTask 0, ResolveComponent (Inl 1)] \<and>
   fst (resolveComponent example_env (Inl 9)
          (performAll example_env [ResolveComponent (Inl 1)] initial))
     = Inl (NotAComponent ''Cmp'') \<and>
   fst (resolveComponent example_env (Inl 9)
         (performAll example_env [RunTask 0, ResolveComponent (Inl 1)]
            (snd (resolveComponent example_env (Inl 9)
                    (performAll example_env [ResolveComponent (Inl 1)] initial)))))
     = Inl TypeError"
proof -
  have h1: "hostCacheKeys (performAll example_env [ResolveComponent (Inl 1)] initial)
     (type_runtime (getDirectiveMetadata example_env 9)) = None"
    by code_simp
  have h2: "\<not> isComponent (getDirectiveMetadata example_env 9)"
    by (simp add: example_env_def example_meta_def)
  have h3: "ClearCache \<notin> set [RunTask 0, ResolveComponent (Inl 1)]" by simp
  have n: "type_name (getDirectiveMetadata example_env 9) = ''Cmp''"
    by (simp add: example_env_def example_meta_def)
  from non_component_retry_fails_on_missing_template [OF h1 h2 h3] h1 h2 h3 n
  show ?thesis by simp
qed




text \<open>
  Claim C9. Take any \<^verbatim>\<open>CompiledTemplate\<close> that exists in a state reached by any run of
  the compiler. Its proxy is the closure over the object itself that the constructor
  built, and after every further run (more \<^verbatim>\<open>resolveComponent\<close> calls, callbacks,
  \<^verbatim>\<open>clearCache\<close>) the object is still there with the same proxy and the same completion
  promise. Only its view factory may differ, and only if it was still unset: once
  \<^verbatim>\<open>init\<close> has assigned a view factory, it is never assigned again.
\<close>

theorem proxy_fixed_view_factory_set_once:
  assumes "templates (performAll e before initial) a = Some t"
  shows "proxyViewFactory t = Proxy a \<and>
         (\<exists>t'. templates (performAll e later (performAll e before initial)) a = Some t' \<and>
               proxyViewFactory t' = Proxy a \<and>
               done_promise t' = done_promise t \<and>
               (viewFactory t = None \<or> viewFactory t' = viewFactory t))"
proof -
  let ?s = "performAll e before initial"
  have ok: "state_ok ?s" using state_ok_initial by (rule performAll_state_ok)
  with assms have p: "proxyViewFactory t = Proxy a" unfolding state_ok_def by blast
  have "template_stable ?s (performAll e later ?s)"
    using ok by (rule performAll_template_stable)
  with assms obtain t' where "templates (performAll e later ?s) a = Some t'"
    "proxyViewFactory t' = proxyViewFactory t" "done_promise t' = done_promise t"
    "viewFactory t = None \<or> viewFactory t' = viewFactory t"
    unfolding template_stable_def by blast
  with p show ?thesis by simp
qed

text \<open>
  The host template of component 1 in the example configuration: created without a view
  factory, given one by its compile callback, and after that unchanged by further
  callbacks, a \<^verbatim>\<open>clearCache\<close>, and a new resolution of the same component.
\<close>

theorem proxy_fixed_view_factory_set_once_witness:
  "templates (performAll example_env [ResolveComponent (Inl 1)] initial) 4
     = Some \<lparr> viewFactory = None, proxyViewFactory = Proxy 4, done_promise = 3 \<rparr> \<and>
   templates (performAll example_env [RunTask 0, RunTask 0, RunTask 2, RunTask 0]
       (performAll example_env [ResolveComponent (Inl 1)] initial)) 4
     = Some \<lparr> viewFactory = Some (ViewFactoryFn Interpret ''view'' ''viewFactory''
                   [ViewFactoryPlaceholder (Proxy 9) ''viewFactory_Cmp'']),
               proxyViewFactory = Proxy 4, done_promise = 3 \<rparr> \<and>
   (\<exists>t'. templates (performAll example_env
               [RunTask 1, RunTask 3, RunTask 1, ClearCache, ResolveComponent (Inl 1), RunTask 0,
                RunTask 0]
               (performAll example_env
                  [ResolveComponent (Inl 1), RunTask 0, RunTask 0, RunTask 2, RunTask 0] initial)) 4
           = Some t' \<and>
         proxyViewFactory t' = Proxy 4 \<and> done_promise t' = 3 \<and>
         viewFactory t' = Some (ViewFactoryFn Interpret ''view'' ''viewFactory''
                   [ViewFactoryPlaceholder (Proxy 9) ''viewFactory_Cmp'']))"
proof -
  let ?f = "ViewFactoryFn Interpret ''view'' ''viewFactory''
              [ViewFactoryPlaceholder (Proxy 9) ''viewFactory_Cmp'']"
  have h0: "templates (performAll example_env [ResolveComponent (Inl 1)] initial) 4
     = Some \<lparr> viewFactory = None, proxyViewFactory = Proxy 4, done_promise = 3 \<rparr>"
    by (simp add: model_defs)
  have h1: "templates (performAll example_env
               [ResolveComponent (Inl 1), RunTask 0, RunTask 0, RunTask 2, RunTask 0] initial) 4
     = Some \<lparr> viewFactory = Some ?f, proxyViewFactory = Proxy 4, done_promise = 3 \<rparr>"
    by (simp add: model_defs)
  have h1': "templates (performAll example_env [RunTask 0, RunTask 0, RunTask 2, RunTask 0]
       (performAll example_env [ResolveComponent (Inl 1)] initial)) 4
     = Some \<lparr> viewFactory = Some ?f, proxyViewFactory = Proxy 4, done_promise = 3 \<rparr>"
    using h1 by simp
  from proxy_fixed_view_factory_set_once [OF h1,
      of "[RunTask 1, RunTask 3, RunTask 1, ClearCache, ResolveComponent (Inl 1), RunTask 0,
           RunTask 0]"]
  have "\<exists>t'. templates (performAll example_env
               [RunTask 1, RunTask 3, RunTask 1, ClearCache, ResolveComponent (Inl 1), RunTask 0,
                RunTask 0]
               (performAll example_env
                  [ResolveComponent (Inl 1), RunTask 0, RunTask 0, RunTask 2, RunTask 0] initial)) 4
           = Some t' \<and>
         proxyViewFactory t' = Proxy 4 \<and> done_promise t' = 3 \<and> viewFactory t' = Some ?f"
    by auto
  with h0 h1' show ?thesis by blast
qed




text \<open>
  Claim C2 fails on the code. Compilation does not terminate on every cyclic component
  graph, because a child counts as a cycle only when its key is on the compiling path
  that was stored when the parent's template was created. In the second application
  the components 11 and 12 include each other and are both children of component 10, so
  each is created with a compiling path that does not hold the other. When their
  callbacks run, each finds the other in the cache, does not take it for a cycle and
  waits for its completion. After the run below the completion promises 11 and 14 wait
  for each other: no pending task can run, whatever steps are tried, and the promise
  that \<^verbatim>\<open>resolveComponent\<close> returned for component 10 stays pending.
\<close>

theorem sibling_cycle_never_completes:
  "promises (performAll sibling_env
      ([ResolveComponent (Inl 10), RunTask 0, RunTask 0, RunTask 2, RunTask 0, RunTask 1,
        RunTask 3, RunTask 1, RunTask 2, RunTask 6, RunTask 3, RunTask 5, RunTask 2, RunTask 2]
       @ map RunTask steps) initial) 6 = Some Pending \<and>
   tasks (performAll sibling_env
      ([ResolveComponent (Inl 10), RunTask 0, RunTask 0, RunTask 2, RunTask 0, RunTask 1,
        RunTask 3, RunTask 1, RunTask 2, RunTask 6, RunTask 3, RunTask 5, RunTask 2, RunTask 2]
       @ map RunTask steps) initial)
     = [HostTask 6 3 5, ChildrenTask 3 4 [8], ChildrenTask 8 9 [11, 14],
        ChildrenTask 11 12 [14], ChildrenTask 14 15 [11]]"
proof -
  let ?s = "performAll sibling_env
      [ResolveComponent (Inl 10), RunTask 0, RunTask 0, RunTask 2, RunTask 0, RunTask 1,
       RunTask 3, RunTask 1, RunTask 2, RunTask 6, RunTask 3, RunTask 5, RunTask 2, RunTask 2]
      initial"
  have ts: "tasks ?s = [HostTask 6 3 5, ChildrenTask 3 4 [8], ChildrenTask 8 9 [11, 14],
                  ChildrenTask 11 12 [14], ChildrenTask 14 15 [11]]"
    by (simp add: model_defs sibling_env_def)
  have ps: "promises ?s 3 = Some Pending" "promises ?s 8 = Some Pending"
      "promises ?s 11 = Some Pending" "promises ?s 14 = Some Pending"
      "promises ?s 6 = Some Pending"
    by (simp_all add: model_defs sibling_env_def)
  have "\<And>i. runTask sibling_env i ?s = ?s"
    by (rule waiting_for_each_other [OF ts ps(1-4)])
  then have "performAll sibling_env (map RunTask steps) ?s = ?s"
    by (rule waiting_forever)
  with ts ps(5) show ?thesis by (simp only: performAll_append)
qed

section \<open>What the compiling path does detect\<close>

text \<open>
  Take a state reached by any run that does not clear the cache, and in it the pending
  callback of a component (its completion promise \<open>d\<close>, its template \<open>a\<close>, its compiling
  path) whose inputs are fulfilled and whose template parses. Suppose every dependency
  the view compiler reports is the view of a component whose key is on the compiling
  path, as for a component that includes only itself. Then every such child is in the
  cache with its template. Running the callback patches each placeholder with that
  proxy, creates no template and caches nothing new, sets the view factory of \<open>a\<close> and
  leaves the completion waiting for an empty list of child promises. The next step of
  that task fulfils \<open>d\<close> with the template \<open>a\<close>.
\<close>

theorem back_references_not_awaited:
  assumes run: "s = performAll e acts initial" "ClearCache \<notin> set acts"
    and task: "i < length (tasks s)" "tasks s ! i = CompileTask d a m pipes path ins"
    and ready: "all_settled (promises s) ins = Some (Inr vs)"
    and parsed: "parse e m (template_text m) (drop 1 vs) pipes (type_name m) = Inr ast"
    and cyc: "list_all (back_reference path)
                (dependencies (viewCompileComponent e m ast (nth_val vs 0) pipes))"
  shows "\<exists>phs.
           map (cached_placeholder s) (dependencies (viewCompileComponent e m ast (nth_val vs 0) pipes))
             = map Some phs \<and>
           templates (runTask e i s) = (templates s)(a :=
             map_option (\<lambda>t. t\<lparr> viewFactory := Some
                 (ViewFactoryFn (realize e (type_name m @ ''.template.js''))
                    (statements (viewCompileComponent e m ast (nth_val vs 0) pipes))
                    (viewFactoryVar (viewCompileComponent e m ast (nth_val vs 0) pipes)) phs) \<rparr>)
               (templates s a)) \<and>
           compiledTemplateCache (runTask e i s) = compiledTemplateCache s \<and>
           tasks (runTask e i s)
             = take i (tasks s) @ drop (Suc i) (tasks s) @ [ChildrenTask d a []] \<and>
           promises (runTask e (length (tasks s) - 1) (runTask e i s)) d
             = Some (Fulfilled (VTemplate a))"
proof -
  let ?res = "viewCompileComponent e m ast (nth_val vs 0) pipes"
  let ?s0 = "removeTask i s"
  let ?s1 = "record_call (CallViewCompileComponent m) (record_call (CallParse m) ?s0)"
  have lk: "links_ok s" unfolding run(1) using run(2) links_ok_initial
    by (rule performAll_links_ok)
  have pth: "\<forall>k\<in>set path. compiledTemplateCache s k \<noteq> None"
    using task_path_subset [OF task] lk unfolding links_ok_def by blast
  have ch: "\<forall>k c. compiledTemplateCache s k = Some c \<longrightarrow> templates s c \<noteq> None"
    using lk unfolding links_ok_def by blast
  have f1: "compiledTemplateCache ?s1 = compiledTemplateCache s" "templates ?s1 = templates s"
    "tasks ?s1 = take i (tasks s) @ drop (Suc i) (tasks s)" "promises ?s1 = promises s"
    by (simp_all add: record_call_def)
  have cp: "cached_placeholder ?s1 = cached_placeholder s"
    by (rule cached_placeholder_cong) (simp_all add: f1)
  from compileDeps_back_references [OF cyc, of ?s1 e] pth ch f1 obtain phs tr where
    cd: "compileDeps e path (dependencies ?res) ?s1 = (Inr ([], phs), ?s1\<lparr> trace := tr \<rparr>)"
    and ph: "map (cached_placeholder ?s1) (dependencies ?res) = map Some phs"
    by auto
  let ?f = "ViewFactoryFn (realize e (type_name m @ ''.template.js''))
              (statements ?res) (viewFactoryVar ?res) phs"
  let ?s2 = "?s1\<lparr> trace := tr \<rparr>"
  let ?s' = "addTask (ChildrenTask d a []) (init a ?f ?s2)"
  have cb: "compileCallback e d a m pipes path vs ?s0 = ?s'"
    using parsed cd by (simp add: compileCallback_def compileComponent_def Let_def)
  have rt: "runTask e i s = ?s'"
    using task ready cb by (simp add: runTask_def)
  have t1: "templates ?s' = (templates s)(a :=
             map_option (\<lambda>t. t\<lparr> viewFactory := Some ?f \<rparr>) (templates s a))"
    by (simp add: addTask_def init_def f1)
  have t2: "compiledTemplateCache ?s' = compiledTemplateCache s"
    by (simp add: addTask_def init_def f1)
  have t3: "tasks ?s' = take i (tasks s) @ drop (Suc i) (tasks s) @ [ChildrenTask d a []]"
    by (simp add: addTask_def init_def f1)
  have len: "length (take i (tasks s) @ drop (Suc i) (tasks s)) = length (tasks s) - 1"
    using task(1) by simp
  have nth: "tasks ?s' ! (length (tasks s) - 1) = ChildrenTask d a []"
    unfolding t3 using len by (metis append_assoc nth_append_length)
  have ll: "length (tasks s) - 1 < length (tasks ?s')"
    unfolding t3 using task(1) by simp
  have t4: "promises (runTask e (length (tasks s) - 1) ?s') d = Some (Fulfilled (VTemplate a))"
    using nth ll by (simp add: runTask_def settle_def removeTask_def)
  from ph cp have "map (cached_placeholder s) (dependencies ?res) = map Some phs" by simp
  with t1 t2 t3 t4 rt show ?thesis by auto
qed

text \<open>
  Component 1 of the example configuration includes itself. After its host template has
  been compiled and its styles are ready, its callback is the second pending task.
\<close>

theorem back_references_not_awaited_witness:
  "ClearCache \<notin> set [ResolveComponent (Inl 1), RunTask 0, RunTask 0, RunTask 2, RunTask 0,
                      RunTask 1, RunTask 3] \<and>
   tasks (performAll example_env [ResolveComponent (Inl 1), RunTask 0, RunTask 0, RunTask 2,
            RunTask 0, RunTask 1, RunTask 3] initial) ! 1
     = CompileTask 8 9 (example_meta 1) [] [TypeKey 1] [7] \<and>
   list_all (back_reference [TypeKey 1])
     (dependencies (viewCompileComponent example_env (example_meta 1) ''<cmp></cmp>''
        (VStyles Interpret ''styles'' ''styles'' []) [])) \<and>
   tasks (runTask example_env 1
           (performAll example_env [ResolveComponent (Inl 1), RunTask 0, RunTask 0, RunTask 2,
              RunTask 0, RunTask 1, RunTask 3] initial))
     = [HostTask 6 3 5, ChildrenTask 3 4 [8], ChildrenTask 8 9 []] \<and>
   promises (runTask example_env 2 (runTask example_env 1
           (performAll example_env [ResolveComponent (Inl 1), RunTask 0, RunTask 0, RunTask 2,
              RunTask 0, RunTask 1, RunTask 3] initial))) 8
     = Some (Fulfilled (VTemplate 9))"
proof -
  let ?acts = "[ResolveComponent (Inl 1), RunTask 0, RunTask 0, RunTask 2, RunTask 0,
                RunTask 1, RunTask 3]"
  let ?s = "performAll example_env ?acts initial"
  let ?vs = "[VStyles Interpret ''styles'' ''styles'' []]"
  have h1: "?s = performAll example_env ?acts initial" by simp
  have h2: "ClearCache \<notin> set ?acts" by simp
  have ts: "tasks ?s = [HostTask 6 3 5, CompileTask 8 9 (example_meta 1) [] [TypeKey 1] [7],
                        ChildrenTask 3 4 [8]]"
    by (simp add: model_defs)
  have h3: "1 < length (tasks ?s)" unfolding ts by simp
  have h4: "tasks ?s ! 1 = CompileTask 8 9 (example_meta 1) [] [TypeKey 1] [7]"
    unfolding ts by simp
  have h5: "all_settled (promises ?s) [7] = Some (Inr ?vs)"
    by (simp add: model_defs)
  have h6: "parse example_env (example_meta 1) (template_text (example_meta 1)) (drop 1 ?vs) []
              (type_name (example_meta 1)) = Inr ''<cmp></cmp>''"
    by (simp add: example_env_def example_meta_def)
  have nv: "nth_val ?vs 0 = VStyles Interpret ''styles'' ''styles'' []"
    by (simp add: nth_val_def)
  have h7: "list_all (back_reference [TypeKey 1])
     (dependencies (viewCompileComponent example_env (example_meta 1) ''<cmp></cmp>''
        (nth_val ?vs 0) []))"
    by (simp add: example_env_def example_meta_def back_reference_def)
  have len: "length (tasks ?s) - 1 = 2" unfolding ts by simp
  from back_references_not_awaited [OF h1 h2 h3 h4 h5 h6 h7] obtain phs where
    c: "tasks (runTask example_env 1 ?s)
          = take 1 (tasks ?s) @ drop (Suc 1) (tasks ?s) @ [ChildrenTask 8 9 []]"
       "promises (runTask example_env (length (tasks ?s) - 1) (runTask example_env 1 ?s)) 8
          = Some (Fulfilled (VTemplate 9))"
    by blast
  have c1: "tasks (runTask example_env 1 ?s)
              = [HostTask 6 3 5, ChildrenTask 3 4 [8], ChildrenTask 8 9 []]"
    using c(1) unfolding ts by simp
  have c2: "promises (runTask example_env 2 (runTask example_env 1 ?s)) 8
              = Some (Fulfilled (VTemplate 9))"
    using c(2) unfolding len .
  from h2 h4 h7 c1 c2 show ?thesis unfolding nv by blast
qed

end
